theory Spec2Isabelle
  imports Complex_Main "HOL-Library.Multiset"
begin

section \<open>Strings and paths\<close>

text \<open>
  Python strings are modelled as \<open>string\<close>; the catalog paths, UIDs and file names
  handled by the scripts are ASCII, so one \<open>char\<close> is one Python character.
\<close>

definition startswith :: "string \<Rightarrow> string \<Rightarrow> bool" where
  "startswith s pre = (take (length pre) s = pre)"

definition endswith :: "string \<Rightarrow> string \<Rightarrow> bool" where
  "endswith s suf = (length suf \<le> length s \<and> drop (length s - length suf) s = suf)"

text \<open>\<open>contains s t\<close> is Python's \<^verbatim>\<open>t in s\<close> on strings.\<close>

fun contains :: "string \<Rightarrow> string \<Rightarrow> bool" where
  "contains [] t = (t = [])"
| "contains (c # cs) t = (startswith (c # cs) t \<or> contains cs t)"

definition lower_char :: "char \<Rightarrow> char" where
  "lower_char c =
     (let n = (of_char c :: nat) in if 65 \<le> n \<and> n \<le> 90 then char_of (n + 32) else c)"

definition lower :: "string \<Rightarrow> string" where
  "lower s = map lower_char s"

definition digit_char :: "nat \<Rightarrow> char" where
  "digit_char d = char_of (48 + d)"

text \<open>\<open>str_of_nat n\<close> is what an f-string prints for a non-negative integer.\<close>

fun str_of_nat :: "nat \<Rightarrow> string" where
  "str_of_nat n =
     (if n < 10 then [digit_char n] else str_of_nat (n div 10) @ [digit_char (n mod 10)])"

declare str_of_nat.simps [simp del]

text \<open>\<open>fmt03d i\<close> is \<^verbatim>\<open>f"{i:03d}"\<close>: decimal, zero-padded to width three.\<close>

definition fmt03d :: "nat \<Rightarrow> string" where
  "fmt03d i = replicate (3 - length (str_of_nat i)) (CHR ''0'') @ str_of_nat i"

text \<open>\<open>os.path.join\<close> of two components (posixpath).\<close>

definition path_join :: "string \<Rightarrow> string \<Rightarrow> string" where
  "path_join a b =
     (if startswith b ''/'' then b
      else if a = [] \<or> endswith a ''/'' then a @ b
      else a @ ''/'' @ b)"

text \<open>\<open>s.split(sep)[-1]\<close> and \<open>s.split(sep)[0]\<close> for a one-character separator.\<close>

definition split_last :: "char \<Rightarrow> string \<Rightarrow> string" where
  "split_last sep s = rev (takeWhile (\<lambda>c. c \<noteq> sep) (rev s))"

definition split_first :: "char \<Rightarrow> string \<Rightarrow> string" where
  "split_first sep s = takeWhile (\<lambda>c. c \<noteq> sep) s"

text \<open>\<open>os.path.basename\<close>: what follows the last slash.\<close>

definition basename :: "string \<Rightarrow> string" where
  "basename p = split_last (CHR ''/'') p"

section \<open>download\_objaverse.py: URL resolver, batcher, completion scanner\<close>

text \<open>
  Exceptions: \<open>ValueError\<close> is raised by the scripts themselves or by the Python
  library, \<open>OSError\<close> by the file system, \<open>HostError\<close> by the rendering host
  or the network, each with its message.
\<close>

datatype exn =
    ValueError string
  | OSError string
  | HostError string

definition base_url :: string where
  "base_url = ''https://huggingface.co/datasets/allenai/objaverse/resolve/main/''"

text \<open>
  The loop over \<open>filtered_uids\<close>: a UID present in the path table appends its URL,
  an absent one is counted as missing.
\<close>

fun resolve_urls ::
  "(string \<rightharpoonup> string) \<Rightarrow> string list \<Rightarrow> string list \<Rightarrow> nat \<Rightarrow> string list \<times> nat" where
  "resolve_urls object_paths [] download_urls missing_count = (download_urls, missing_count)"
| "resolve_urls object_paths (uid # rest) download_urls missing_count =
     (case object_paths uid of
        Some p \<Rightarrow> resolve_urls object_paths rest (download_urls @ [base_url @ p]) missing_count
      | None \<Rightarrow> resolve_urls object_paths rest download_urls (missing_count + 1))"

definition batch_file_name :: "string \<Rightarrow> nat \<Rightarrow> string" where
  "batch_file_name output_file k =
     ''download_batches/'' @ output_file @ ''_batch_'' @ str_of_nat k @ ''.json''"

definition all_file_name :: "string \<Rightarrow> string" where
  "all_file_name output_file = ''download_batches/'' @ output_file @ ''_all.json''"

text \<open>
  The URL sequence in the words of the specification: for each UID in order, the
  fixed base followed by its catalog path when the path table has one, and nothing
  otherwise.
\<close>

definition spec_url_sequence :: "(string \<rightharpoonup> string) \<Rightarrow> string list \<Rightarrow> string list" where
  "spec_url_sequence object_paths uids =
     concat (map (\<lambda>uid. case object_paths uid of None \<Rightarrow> [] | Some p \<Rightarrow> [base_url @ p]) uids)"

text \<open>
  The operating system, as far as the scripts ask it to create directories and to open
  files for writing: \<open>makedirs\<close> is \<^verbatim>\<open>os.makedirs(path, exist_ok=True)\<close> and
  \<open>open_w\<close> is \<^verbatim>\<open>open(path, 'w')\<close>; each gives \<open>None\<close> when the call
  returns and the message of the \<open>OSError\<close> when it raises (a missing parent
  directory, a file where a directory is expected, a refused permission).
\<close>

record opsys =
  makedirs :: "string \<Rightarrow> string option"
  open_w :: "string \<Rightarrow> string option"

text \<open>
  \<^verbatim>\<open>for i in range(0, len(download_urls), batch_size)\<close> with a positive step:
  each round opens the file numbered \<^verbatim>\<open>i // batch_size\<close> and writes the slice
  \<^verbatim>\<open>download_urls[i:i + batch_size]\<close> to it. The result is the exception that
  ended the loop, if any, and the writes made, in order.
\<close>

function batch_loop ::
  "opsys \<Rightarrow> string \<Rightarrow> nat \<Rightarrow> string list \<Rightarrow> nat
     \<Rightarrow> exn option \<times> (string \<times> string list) list" where
  "batch_loop sys output_file batch_size download_urls i =
     (if 0 < batch_size \<and> i < length download_urls
      then (case open_w sys (batch_file_name output_file (i div batch_size)) of
              Some msg \<Rightarrow> (Some (OSError msg), [])
            | None \<Rightarrow>
                (case batch_loop sys output_file batch_size download_urls (i + batch_size) of
                   (e, written) \<Rightarrow>
                     (e, (batch_file_name output_file (i div batch_size),
                          take batch_size (drop i download_urls)) # written)))
      else (None, []))"
  by pat_completeness auto
termination
  by (relation "measure (\<lambda>(sys, output_file, batch_size, download_urls, i).
        length download_urls - i)")
     auto

declare batch_loop.simps [simp del]

record download_list =
  batch_writes :: "(string \<times> string list) list"
  all_write :: "string \<times> string list"
  printed_batch_count :: int
  missing :: nat
  returned_urls :: "string list"

text \<open>
  \<open>create_download_list\<close>, from the loaded UID list and path table. The directory
  \<open>download_batches\<close> is made first. A zero step makes \<open>range\<close> raise; a negative
  one makes it empty. Then the batch files and the file of all URLs are opened and
  written. The last \<open>print\<close> reports \<^verbatim>\<open>len(download_urls)//batch_size + 1\<close>
  (Python's floor division). When an exception ends the run, the result is the
  exception with the batch files written before it.
\<close>

definition create_download_list ::
  "opsys \<Rightarrow> string list \<Rightarrow> (string \<rightharpoonup> string) \<Rightarrow> string \<Rightarrow> int
     \<Rightarrow> exn \<times> (string \<times> string list) list + download_list" where
  "create_download_list sys filtered_uids object_paths output_file batch_size =
     (let (download_urls, missing_count) = resolve_urls object_paths filtered_uids [] 0 in
      case makedirs sys ''download_batches'' of
        Some msg \<Rightarrow> Inl (OSError msg, [])
      | None \<Rightarrow>
          if batch_size = 0 then Inl (ValueError ''range() arg 3 must not be zero'', [])
          else
            (case (if 0 < batch_size
                   then batch_loop sys output_file (nat batch_size) download_urls 0
                   else (None, [])) of
               (Some e, written) \<Rightarrow> Inl (e, written)
             | (None, written) \<Rightarrow>
                 (case open_w sys (all_file_name output_file) of
                    Some msg \<Rightarrow> Inl (OSError msg, written)
                  | None \<Rightarrow>
                      Inr \<lparr> batch_writes = written,
                            all_write = (all_file_name output_file, download_urls),
                            printed_batch_count = int (length download_urls) div batch_size + 1,
                            missing = missing_count,
                            returned_urls = download_urls \<rparr>)))"

text \<open>An operating system that accepts every call, for the examples.\<close>

definition accepting_os :: opsys where
  "accepting_os = \<lparr> makedirs = (\<lambda>p. None), open_w = (\<lambda>p. None) \<rparr>"

text \<open>
  A directory tree as \<open>os.listdir\<close>, \<open>os.path.isdir\<close> and \<open>os.path.exists\<close>
  see it: a directory lists named entries.
\<close>

datatype node = File | Dir "(string \<times> node) list"

fun isdir :: "node \<Rightarrow> bool" where
  "isdir File = False"
| "isdir (Dir es) = True"

fun listdir :: "node \<Rightarrow> string list" where
  "listdir File = []"
| "listdir (Dir es) = map fst es"

definition is_rendered :: "node \<Rightarrow> bool" where
  "is_rendered item =
     (let png_files = filter (\<lambda>f. endswith f ''.png'') (listdir item)
      in 16 \<le> length png_files \<and> ''cameras.json'' \<in> set (listdir item))"

fun scan_items :: "(string \<times> node) list \<Rightarrow> string set \<Rightarrow> string set" where
  "scan_items [] completed_uids = completed_uids"
| "scan_items ((item, n) # rest) completed_uids =
     (if isdir n
      then (if is_rendered n then scan_items rest (insert item completed_uids)
            else scan_items rest completed_uids)
      else scan_items rest completed_uids)"

text \<open>
  \<open>check_existing_renders\<close>; the argument is the entries of \<open>output_dir\<close>, or
  \<open>None\<close> when that directory does not exist.
\<close>

definition check_existing_renders :: "(string \<times> node) list option \<Rightarrow> string set" where
  "check_existing_renders output_dir =
     (case output_dir of None \<Rightarrow> {} | Some items \<Rightarrow> scan_items items {})"

section \<open>subset\_lists.py: train/test split\<close>

text \<open>
  \<^verbatim>\<open>int(len(all_uids) * 0.9)\<close>. The product is a binary64 one in Python; it is
  written here over the reals.
\<close>

definition split_idx :: "nat \<Rightarrow> nat" where
  "split_idx n = nat \<lfloor>real n * 0.9\<rfloor>"

record split_lists =
  train_uids :: "string list"
  test_uids :: "string list"

text \<open>
  The module body. \<open>shuffle\<close> stands for \<^verbatim>\<open>random.seed(42); random.shuffle(all_uids)\<close>,
  the library's seeded shuffle; the argument \<open>renders_dir\<close> is the listing of
  \<open>RENDERS_DIR\<close>, \<open>None\<close> when the directory is absent (\<open>os.listdir\<close> raises).
\<close>

definition subset_lists ::
  "(string list \<Rightarrow> string list) \<Rightarrow> (string \<times> node) list option \<Rightarrow> exn + split_lists" where
  "subset_lists shuffle renders_dir =
     (case renders_dir of
        None \<Rightarrow> Inl (OSError ''No such file or directory'')
      | Some entries \<Rightarrow>
          (let all_uids = map fst (filter (\<lambda>(d, n). isdir n) entries);
               shuffled = shuffle all_uids;
               idx = split_idx (length shuffled)
           in Inr \<lparr> train_uids = take idx shuffled, test_uids = drop idx shuffled \<rparr>))"

section \<open>Discarded/simple\_filter.py: catalog filter\<close>

definition exclusion_terms :: "string list" where
  "exclusion_terms =
     [''test'', ''temp'', ''placeholder'', ''broken'', ''wip'',
      ''untextured'', ''lowpoly'', ''simple'', ''cube'', ''sphere'',
      ''plane'', ''default'', ''example'']"

text \<open>
  The filtering loop; \<^verbatim>\<open>object_paths.get(uid, "")\<close> gives the empty path for an
  unmapped UID, and every \<open>continue\<close> goes on with the rest of the sample.
\<close>

fun filter_loop :: "(string \<rightharpoonup> string) \<Rightarrow> string list \<Rightarrow> string list \<Rightarrow> string list" where
  "filter_loop object_paths [] filtered_uids = filtered_uids"
| "filter_loop object_paths (uid # rest) filtered_uids =
     (let path = (case object_paths uid of None \<Rightarrow> [] | Some p \<Rightarrow> p) in
      if path = [] then filter_loop object_paths rest filtered_uids
      else if \<not> endswith path ''.glb'' then filter_loop object_paths rest filtered_uids
      else if list_ex (\<lambda>bad_term. contains (lower path) bad_term) exclusion_terms
        then filter_loop object_paths rest filtered_uids
      else if length path < 10 then filter_loop object_paths rest filtered_uids
      else filter_loop object_paths rest (filtered_uids @ [uid]))"

text \<open>
  \<open>simple_quality_filter\<close>; \<open>sample\<close> stands for the library's seeded
  \<^verbatim>\<open>random.seed(42); random.sample(uids, k)\<close>, which raises on a negative \<open>k\<close>.
\<close>

definition simple_quality_filter ::
  "(string list \<Rightarrow> nat \<Rightarrow> string list) \<Rightarrow> string list \<Rightarrow> (string \<rightharpoonup> string) \<Rightarrow> int
     \<Rightarrow> exn + string list" where
  "simple_quality_filter sample uids object_paths sample_size =
     (let k = min sample_size (int (length uids)) in
      if k < 0 then Inl (ValueError ''Sample larger than population or is negative'')
      else Inr (filter_loop object_paths (sample uids (nat k)) []))"

section \<open>blender\_script.py: multi-view camera pipeline\<close>

text \<open>
  Python floats are written as reals: the model keeps the formulas of the script and
  leaves binary64 rounding out. The configured intrinsics (35, 32, 256 and their
  quotients) are small integers, on which binary64 arithmetic is exact.
\<close>

type_synonym vec3 = "real \<times> real \<times> real"

definition AZIMUTHS_16 :: "real list" where
  "AZIMUTHS_16 =
     [0.0, 0.7853981852531433, 1.5707963705062866, 2.356194496154785,
      3.1415927410125732, 3.9269907474517822, 4.71238899230957, 5.497786998748779,
      0.39269909262657166, 1.1780972480773926, 1.9634954929351807, 2.7488934993743896,
      3.5342917442321777, 4.319689750671387, 5.105088233947754, 5.890486240386963]"

definition ELEVATIONS_16 :: "real list" where
  "ELEVATIONS_16 =
     [0.5235987901687622, 0.5235987901687622, 0.5235987901687622, 0.5235987901687622,
      0.5235987901687622, 0.5235987901687622, 0.5235987901687622, 0.5235987901687622,
      0.5235987901687622, 0.5235987901687622, 0.5235987901687622, 0.5235987901687622,
      0.5235987901687622, 0.5235987901687622, 0.5235987901687622, 0.5235987901687622]"

definition get_camera_position :: "real \<Rightarrow> real \<Rightarrow> real \<Rightarrow> vec3" where
  "get_camera_position azimuth elevation distance =
     (let x = distance * cos azimuth * cos elevation;
          y = distance * sin azimuth * cos elevation;
          z = distance * sin elevation
      in (x, y, z))"

definition vadd :: "vec3 \<Rightarrow> vec3 \<Rightarrow> vec3" where
  "vadd u v = (case (u, v) of ((a, b, c), (d, e, f)) \<Rightarrow> (a + d, b + e, c + f))"

definition vsub :: "vec3 \<Rightarrow> vec3 \<Rightarrow> vec3" where
  "vsub u v = (case (u, v) of ((a, b, c), (d, e, f)) \<Rightarrow> (a - d, b - e, c - f))"

text \<open>One entry of \<open>cameras.json\<close>.\<close>

record view_record =
  view_id :: nat
  azimuth :: real
  elevation :: real
  camera_distance :: real
  position :: vec3
  target :: vec3
  up :: vec3
  focal_length :: "real \<times> real"
  principal_point :: "real \<times> real"
  image_size :: "int \<times> int"
  sensor_size :: "real \<times> real"

text \<open>
  The file system maps a path to what the file holds: an image written by the host,
  the camera metadata, or the bytes of a downloaded asset.
\<close>

datatype artifact = Image | CamerasJson "view_record list" | Asset string

type_synonym fs = "string \<rightharpoonup> artifact"

definition path_exists :: "fs \<Rightarrow> string \<Rightarrow> bool" where
  "path_exists files p = (files p \<noteq> None)"

definition os_rename :: "string \<Rightarrow> string \<Rightarrow> fs \<Rightarrow> fs" where
  "os_rename src dst files = (if src = dst then files else (files(dst := files src))(src := None))"

definition read_cameras :: "fs \<Rightarrow> string \<Rightarrow> view_record list" where
  "read_cameras files p = (case files p of Some (CamerasJson recs) \<Rightarrow> recs | _ \<Rightarrow> [])"

text \<open>The command line, the render settings of the module and the camera data.\<close>

record args =
  object_path :: string
  output_dir :: string
  num_images :: int
  camera_dist :: real

record render_settings =
  resolution_x :: int
  resolution_y :: int

definition render :: render_settings where
  "render = \<lparr> resolution_x = 256, resolution_y = 256 \<rparr>"

record camera =
  lens :: real
  sensor_width :: real

text \<open>
  The rendering host is an external collaborator. What the script asks of it:
  scene stages that succeed or raise; one render per view, which writes files;
  the camera's world matrix once the track-to constraint is evaluated; and, for
  remote assets, the download. The stages are, in the order of \<open>save_images\<close>:
  \<open>reset_scene\<close>, the importer that \<open>load_object\<close> selects,
  \<open>normalize_scene\<close>, \<open>add_lighting\<close>, \<open>setup_camera\<close> with the tracked
  empty, and \<open>setup_compositor_for_depth_and_mask\<close> on the views directory. A stage
  gives \<open>None\<close> when it returns and the message when it raises; so does a render,
  together with the file system it leaves. A retrieval either fetches the content or
  fails with a message, leaving the bytes it has written to the target, if any.
\<close>

datatype stage =
    Reset
  | ImportGltf string
  | ImportFbx string
  | Normalize
  | Lighting
  | CameraRig
  | Compositor string

record render_job =
  rgb_filepath :: string
  base_path :: string
  depth_slot :: string
  mask_slot :: string
  cam_location :: vec3

datatype fetch =
    Fetched string
  | FetchFailed string "string option"

record host =
  system :: opsys
  run_stage :: "stage \<Rightarrow> string option"
  render_still :: "render_job \<Rightarrow> fs \<Rightarrow> string option \<times> fs"
  cam_world :: "vec3 \<Rightarrow> vec3 \<Rightarrow> vec3"
  cam_translation :: "vec3 \<Rightarrow> vec3"
  urlretrieve :: "string \<Rightarrow> fetch"

definition stage_exn :: "host \<Rightarrow> stage \<Rightarrow> exn option" where
  "stage_exn h s = map_option HostError (run_stage h s)"

text \<open>
  \<^verbatim>\<open>os.makedirs(path, exist_ok=True)\<close> on the file system of the model: it
  raises when the path is an existing file, and otherwise as the operating system
  decides.
\<close>

definition os_makedirs :: "host \<Rightarrow> string \<Rightarrow> fs \<Rightarrow> exn option" where
  "os_makedirs h p files =
     (if path_exists files p then Some (OSError ''File exists'')
      else map_option OSError (makedirs (system h) p))"

text \<open>\<open>load_object\<close>: \<open>None\<close> when it returns, the exception otherwise.\<close>

definition load_object :: "host \<Rightarrow> string \<Rightarrow> exn option" where
  "load_object h p =
     (if endswith p ''.glb'' then stage_exn h (ImportGltf p)
      else if endswith p ''.fbx'' then stage_exn h (ImportFbx p)
      else Some (ValueError (''Unsupported file type: '' @ p)))"

text \<open>\<open>setup_camera\<close> sets the lens and the sensor width of the scene's camera.\<close>

definition setup_camera :: camera where
  "setup_camera = \<lparr> lens = 35, sensor_width = 32 \<rparr>"

text \<open>The body of the loop of \<open>save_camera_parameters_mvd\<close> and the list it builds.\<close>

definition camera_param ::
  "host \<Rightarrow> render_settings \<Rightarrow> real \<Rightarrow> camera \<Rightarrow> nat \<Rightarrow> view_record" where
  "camera_param h rs cam_dist cam i =
     (let focal = lens cam;
          sw = sensor_width cam;
          sensor_height = sw * (real_of_int (resolution_y rs) / real_of_int (resolution_x rs));
          f_x = (focal * real_of_int (resolution_x rs)) / sw;
          f_y = (focal * real_of_int (resolution_y rs)) / sensor_height;
          c_x = real_of_int (resolution_x rs) / 2;
          c_y = real_of_int (resolution_y rs) / 2;
          az = AZIMUTHS_16 ! i;
          el = ELEVATIONS_16 ! i;
          cam_pos = get_camera_position az el cam_dist;
          look_dir = vsub (cam_world h cam_pos (0, 0, -1)) (cam_translation h cam_pos);
          look_target = vadd (cam_translation h cam_pos) look_dir;
          up_dir = vsub (cam_world h cam_pos (0, 1, 0)) (cam_translation h cam_pos)
      in \<lparr> view_id = i, azimuth = az, elevation = el, camera_distance = cam_dist,
           position = cam_pos, target = look_target, up = up_dir,
           focal_length = (f_x, f_y), principal_point = (c_x, c_y),
           image_size = (resolution_x rs, resolution_y rs),
           sensor_size = (sw, sensor_height) \<rparr>)"

definition camera_params ::
  "host \<Rightarrow> render_settings \<Rightarrow> int \<Rightarrow> real \<Rightarrow> camera \<Rightarrow> view_record list" where
  "camera_params h rs num_views cam_dist cam = map (camera_param h rs cam_dist cam) [0..<nat num_views]"

definition save_camera_parameters_mvd ::
  "host \<Rightarrow> render_settings \<Rightarrow> string \<Rightarrow> int \<Rightarrow> real \<Rightarrow> camera \<Rightarrow> fs \<Rightarrow> fs" where
  "save_camera_parameters_mvd h rs views_dir num_views cam_dist cam files =
     files(path_join views_dir ''cameras.json'' \<mapsto> CamerasJson (camera_params h rs num_views cam_dist cam))"

text \<open>
  One round of the render loop of \<open>save_images\<close>: place the camera, name the three
  outputs, render once, and rename the depth and mask files the host has numbered.
\<close>

definition render_view :: "host \<Rightarrow> string \<Rightarrow> real \<Rightarrow> nat \<Rightarrow> fs \<Rightarrow> exn option \<times> fs" where
  "render_view h views_dir cam_dist i files =
     (let az = AZIMUTHS_16 ! i;
          el = ELEVATIONS_16 ! i;
          cam_pos = get_camera_position az el cam_dist;
          rgb_path = path_join views_dir (fmt03d i @ ''_rgb.jpg'');
          job = \<lparr> rgb_filepath = rgb_path, base_path = views_dir,
                  depth_slot = fmt03d i @ ''_depth'', mask_slot = fmt03d i @ ''_mask'',
                  cam_location = cam_pos \<rparr>
      in case render_still h job files of
           (Some msg, files1) \<Rightarrow> (Some (HostError msg), files1)
         | (None, files1) \<Rightarrow>
             (let depth_temp = path_join views_dir (fmt03d i @ ''_depth0001.png'');
                  depth_final = path_join views_dir (fmt03d i @ ''_depth.png'');
                  mask_temp = path_join views_dir (fmt03d i @ ''_mask0001.jpg'');
                  mask_final = path_join views_dir (fmt03d i @ ''_mask.jpg'');
                  files2 = (if path_exists files1 depth_temp
                            then os_rename depth_temp depth_final files1 else files1);
                  files3 = (if path_exists files2 mask_temp
                            then os_rename mask_temp mask_final files2 else files2)
              in (None, files3)))"

fun render_views ::
  "host \<Rightarrow> string \<Rightarrow> real \<Rightarrow> nat list \<Rightarrow> fs \<Rightarrow> exn option \<times> fs" where
  "render_views h views_dir cam_dist [] files = (None, files)"
| "render_views h views_dir cam_dist (i # rest) files =
     (case render_view h views_dir cam_dist i files of
        (Some e, files1) \<Rightarrow> (Some e, files1)
      | (None, files1) \<Rightarrow> render_views h views_dir cam_dist rest files1)"

text \<open>
  \<open>save_images\<close>. The output directory is made, the scene is prepared, the views
  directory is made and the compositor is set up on it; the first of these steps that
  raises ends the run. The file system is returned in either case, since files already
  written stay.
\<close>

fun first_exn :: "exn option list \<Rightarrow> exn option" where
  "first_exn [] = None"
| "first_exn (Some e # rest) = Some e"
| "first_exn (None # rest) = first_exn rest"

definition save_images :: "host \<Rightarrow> args \<Rightarrow> string \<Rightarrow> fs \<Rightarrow> exn option \<times> fs" where
  "save_images h a object_file files =
     (let object_uid = split_first (CHR ''.'') (basename object_file);
          views_dir = path_join (path_join (output_dir a) object_uid) ''views''
      in case first_exn
             [os_makedirs h (output_dir a) files,
              stage_exn h Reset, load_object h object_file, stage_exn h Normalize,
              stage_exn h Lighting, stage_exn h CameraRig,
              os_makedirs h views_dir files, stage_exn h (Compositor views_dir)] of
           Some e \<Rightarrow> (Some e, files)
         | None \<Rightarrow>
             (let num_views = min (num_images a) 16 in
              case render_views h views_dir (camera_dist a) [0..<nat num_views] files of
                (Some e, files1) \<Rightarrow> (Some e, files1)
              | (None, files1) \<Rightarrow>
                  (None, save_camera_parameters_mvd h render views_dir num_views
                           (camera_dist a) setup_camera files1)))"

text \<open>
  \<open>download_object\<close>. A failed retrieval raises and may leave a partial temporary
  file. \<open>os.path.abspath\<close> spells the same file from the root; the model names a
  file by the spelling the script builds, so the returned path is \<open>local_path\<close>.
\<close>

definition download_object :: "host \<Rightarrow> string \<Rightarrow> fs \<Rightarrow> (exn + string) \<times> fs" where
  "download_object h object_url files =
     (let uid = split_first (CHR ''.'') (split_last (CHR ''/'') object_url);
          tmp_local_path = path_join ''tmp-objects'' (uid @ ''.glb.tmp'');
          local_path = path_join ''tmp-objects'' (uid @ ''.glb'')
      in case urlretrieve h object_url of
           FetchFailed msg partial \<Rightarrow>
             (Inl (HostError msg),
              (case partial of None \<Rightarrow> files | Some b \<Rightarrow> files(tmp_local_path \<mapsto> Asset b)))
         | Fetched b \<Rightarrow>
             (Inr local_path, os_rename tmp_local_path local_path (files(tmp_local_path \<mapsto> Asset b))))"

text \<open>
  The \<open>try\<close>/\<open>except Exception\<close> of the script: it ends by printing either the
  success line or the failure line with the exception.
\<close>

datatype outcome = Finished string | Failed string exn

definition main :: "host \<Rightarrow> args \<Rightarrow> fs \<Rightarrow> outcome \<times> fs" where
  "main h a files =
     (case (if startswith (object_path a) ''http'' then download_object h (object_path a) files
            else (Inr (object_path a), files)) of
        (Inl e, files1) \<Rightarrow> (Failed (object_path a) e, files1)
      | (Inr local_path, files1) \<Rightarrow>
          (case save_images h a local_path files1 of
             (Some e, files2) \<Rightarrow> (Failed (object_path a) e, files2)
           | (None, files2) \<Rightarrow>
               (if startswith (object_path a) ''http''
                then (if path_exists files2 local_path
                      then (Finished local_path, files2(local_path := None))
                      else (Failed (object_path a) (OSError ''No such file or directory''), files2))
                else (Finished local_path, files2))))"

text \<open>
  The host behaviour the renaming code of \<open>save_images\<close> expects: a render writes
  the colour image at the given path, and each file-output node writes its slot under
  the base path with the frame number 0001 and its extension.
\<close>

definition write_frame_outputs :: "render_job \<Rightarrow> fs \<Rightarrow> fs" where
  "write_frame_outputs job files =
     files(rgb_filepath job \<mapsto> Image,
           path_join (base_path job) (depth_slot job @ ''0001.png'') \<mapsto> Image,
           path_join (base_path job) (mask_slot job @ ''0001.jpg'') \<mapsto> Image)"

text \<open>
  An example host: directories can be made, every stage succeeds, renders write the
  numbered outputs, the camera matrix is the translation to the camera's location,
  downloads succeed.
\<close>

definition frame_host :: host where
  "frame_host =
     \<lparr> system = accepting_os,
       run_stage = (\<lambda>s. None),
       render_still = (\<lambda>job files. (None, write_frame_outputs job files)),
       cam_world = (\<lambda>loc v. vadd loc v),
       cam_translation = (\<lambda>loc. loc),
       urlretrieve = (\<lambda>url. Fetched ''glTF'') \<rparr>"

text \<open>
  The directory layout of one view: the three files the pipeline leaves for view
  \<open>i\<close>, and the two numbered files of the host that it renames.
\<close>

definition view_files :: "string \<Rightarrow> nat \<Rightarrow> string list" where
  "view_files views_dir i =
     [path_join views_dir (fmt03d i @ ''_rgb.jpg''),
      path_join views_dir (fmt03d i @ ''_depth.png''),
      path_join views_dir (fmt03d i @ ''_mask.jpg'')]"

definition host_temps :: "string \<Rightarrow> nat \<Rightarrow> string list" where
  "host_temps views_dir i =
     [path_join views_dir (fmt03d i @ ''_depth0001.png''),
      path_join views_dir (fmt03d i @ ''_mask0001.jpg'')]"

section \<open>Properties of strings and paths\<close>

lemma startswith_iff: "startswith s pre \<longleftrightarrow> (\<exists>suf. s = pre @ suf)"
  unfolding startswith_def
  by (metis append_eq_conv_conj append_take_drop_id)

lemma endswith_iff: "endswith s suf \<longleftrightarrow> (\<exists>pre. s = pre @ suf)"
  unfolding endswith_def
  by (metis append_eq_conv_conj append_take_drop_id diff_add_inverse2 length_append le_add2 length_drop)

lemma contains_iff: "contains s t \<longleftrightarrow> (\<exists>pre suf. s = pre @ t @ suf)"
proof (induction s)
  case Nil
  then show ?case by simp
next
  case (Cons c cs)
  show ?case
  proof
    assume "contains (c # cs) t"
    then consider "startswith (c # cs) t" | "contains cs t" by auto
    then show "\<exists>pre suf. c # cs = pre @ t @ suf"
    proof cases
      case 1
      then obtain suf where "c # cs = t @ suf" by (auto simp: startswith_iff)
      then have "c # cs = [] @ t @ suf" by simp
      then show ?thesis by blast
    next
      case 2
      then obtain pre suf where "cs = pre @ t @ suf" using Cons.IH by blast
      then have "c # cs = (c # pre) @ t @ suf" by simp
      then show ?thesis by blast
    qed
  next
    assume "\<exists>pre suf. c # cs = pre @ t @ suf"
    then obtain pre suf where eq: "c # cs = pre @ t @ suf" by blast
    show "contains (c # cs) t"
    proof (cases pre)
      case Nil
      with eq have "startswith (c # cs) t" by (simp add: startswith_iff)
      then show ?thesis by simp
    next
      case (Cons p ps)
      with eq have "cs = ps @ t @ suf" by simp
      then show ?thesis using Cons.IH by auto
    qed
  qed
qed

lemma path_join_rel:
  "\<not> startswith b ''/'' \<Longrightarrow>
   path_join a b = (if a = [] \<or> endswith a ''/'' then a else a @ ''/'') @ b"
  by (simp add: path_join_def)

lemma path_join_inj:
  "\<not> startswith x ''/'' \<Longrightarrow> \<not> startswith y ''/'' \<Longrightarrow>
   (path_join a x = path_join a y) = (x = y)"
  by (simp add: path_join_rel)

subsection \<open>Decimal numerals are unambiguous\<close>

lemma of_char_digit_char: "d < 10 \<Longrightarrow> of_char (digit_char d) = 48 + d"
  by (simp add: digit_char_def)

lemma digit_char_inj: "d < 10 \<Longrightarrow> e < 10 \<Longrightarrow> digit_char d = digit_char e \<Longrightarrow> d = e"
proof -
  assume d: "d < 10" and e: "e < 10" and eq: "digit_char d = digit_char e"
  from eq have "(of_char (digit_char d) :: nat) = of_char (digit_char e)" by simp
  then show "d = e" using d e by (simp add: of_char_digit_char)
qed

lemma digit_char_0: "digit_char 0 = CHR ''0''"
  by code_simp

lemma str_of_nat_small: "n < 10 \<Longrightarrow> str_of_nat n = [digit_char n]"
  by (subst str_of_nat.simps) simp

lemma str_of_nat_big:
  "\<not> n < 10 \<Longrightarrow> str_of_nat n = str_of_nat (n div 10) @ [digit_char (n mod 10)]"
  by (subst str_of_nat.simps) simp

lemma str_of_nat_nonempty: "str_of_nat n \<noteq> []"
  by (cases "n < 10") (simp_all add: str_of_nat_small str_of_nat_big)

lemma str_of_nat_inj: "str_of_nat n = str_of_nat m \<Longrightarrow> n = m"
proof (induction n arbitrary: m rule: str_of_nat.induct)
  case (1 n)
  show ?case
  proof (cases "n < 10")
    case nsmall: True
    show ?thesis
    proof (cases "m < 10")
      case True
      with nsmall 1(2) show ?thesis
        by (simp add: str_of_nat_small digit_char_inj)
    next
      case False
      with nsmall 1(2) show ?thesis
        using str_of_nat_nonempty[of "m div 10"]
        by (simp add: str_of_nat_small str_of_nat_big)
    qed
  next
    case nbig: False
    show ?thesis
    proof (cases "m < 10")
      case True
      with nbig 1(2) show ?thesis
        using str_of_nat_nonempty[of "n div 10"]
        by (simp add: str_of_nat_small str_of_nat_big)
    next
      case False
      with nbig 1(2) have eq: "str_of_nat (n div 10) = str_of_nat (m div 10)"
        and dg: "digit_char (n mod 10) = digit_char (m mod 10)"
        by (simp_all add: str_of_nat_big)
      from 1(1)[OF nbig eq] have "n div 10 = m div 10" .
      moreover from dg have "n mod 10 = m mod 10" by (intro digit_char_inj) simp_all
      ultimately show ?thesis by (metis div_mult_mod_eq)
    qed
  qed
qed

subsection \<open>File names of the views\<close>

lemma fmt03d_small:
  "i < 100 \<Longrightarrow> fmt03d i = [CHR ''0'', digit_char (i div 10), digit_char (i mod 10)]"
proof (cases "i < 10")
  case True
  then show ?thesis
    by (simp add: fmt03d_def str_of_nat_small digit_char_0 numeral_3_eq_3)
next
  case False
  assume "i < 100"
  then have "i div 10 < 10" by simp
  then have "str_of_nat i = [digit_char (i div 10), digit_char (i mod 10)]"
    using False by (simp add: str_of_nat_big str_of_nat_small)
  then show ?thesis by (simp add: fmt03d_def)
qed

lemma fmt03d_inj: "i < 100 \<Longrightarrow> j < 100 \<Longrightarrow> fmt03d i = fmt03d j \<Longrightarrow> i = j"
proof -
  assume i: "i < 100" and j: "j < 100" and eq: "fmt03d i = fmt03d j"
  from eq have "digit_char (i div 10) = digit_char (j div 10)"
    and "digit_char (i mod 10) = digit_char (j mod 10)"
    using i j by (simp_all add: fmt03d_small)
  then have "i div 10 = j div 10" and "i mod 10 = j mod 10"
    using i j by (auto intro: digit_char_inj)
  then show "i = j" by (metis div_mult_mod_eq)
qed

lemma view_name_eq:
  "i < 100 \<Longrightarrow> j < 100 \<Longrightarrow> (fmt03d i @ s = fmt03d j @ t) = (i = j \<and> s = t)"
proof -
  assume i: "i < 100" and j: "j < 100"
  have "length (fmt03d i) = length (fmt03d j)" using i j by (simp add: fmt03d_small)
  then have "(fmt03d i @ s = fmt03d j @ t) = (fmt03d i = fmt03d j \<and> s = t)" by simp
  then show ?thesis using fmt03d_inj[OF i j] by auto
qed

lemma view_name_noslash: "i < 100 \<Longrightarrow> \<not> startswith (fmt03d i @ s) ''/''"
  by (simp add: fmt03d_small startswith_def)

lemma view_name_not_cameras: "i < 100 \<Longrightarrow> fmt03d i @ s \<noteq> ''cameras.json''"
  by (simp add: fmt03d_small)

lemma view_path_eq:
  "i < 100 \<Longrightarrow> j < 100 \<Longrightarrow>
   (path_join a (fmt03d i @ s) = path_join a (fmt03d j @ t)) = (i = j \<and> s = t)"
  by (simp add: path_join_inj view_name_noslash view_name_eq)

lemma view_path_not_cameras:
  "i < 100 \<Longrightarrow> path_join a (fmt03d i @ s) \<noteq> path_join a ''cameras.json''"
proof -
  assume i: "i < 100"
  have a: "\<not> startswith (fmt03d i @ s) ''/''" using i by (rule view_name_noslash)
  have b: "\<not> startswith ''cameras.json'' ''/''" by (simp add: startswith_def)
  show ?thesis
    using path_join_inj[OF a b, of a] view_name_not_cameras[OF i, of s] by simp
qed

section \<open>Properties of the batcher\<close>

lemma batch_count_le: "0 < b \<Longrightarrow> j * b < n \<Longrightarrow> j < (n + b - 1) div b" for b j n :: nat
proof -
  assume b: "0 < b" and lt: "j * b < n"
  have "(j + 1) * b \<le> n + b - 1" using lt b by (simp add: algebra_simps)
  then have "j + 1 \<le> (n + b - 1) div b" using b by (simp add: less_eq_div_iff_mult_less_eq)
  then show ?thesis by simp
qed

lemma batch_count_ge: "0 < b \<Longrightarrow> \<not> j * b < n \<Longrightarrow> (n + b - 1) div b \<le> j" for b j n :: nat
proof -
  assume b: "0 < b" and ge: "\<not> j * b < n"
  have "n + b - 1 < (j + 1) * b" using ge b by (simp add: algebra_simps)
  then have "(n + b - 1) div b < j + 1" using b by (simp add: div_less_iff_less_mult)
  then show ?thesis by simp
qed

lemma batch_loop_writes:
  "0 < b \<Longrightarrow> i = j * b \<Longrightarrow> batch_loop sys out b xs i = (None, ws) \<Longrightarrow>
   ws = map (\<lambda>k. (batch_file_name out k, take b (drop (k * b) xs)))
          [j..<(length xs + b - 1) div b]"
proof (induction sys out b xs i arbitrary: j ws rule: batch_loop.induct)
  case (1 sys out b xs i)
  show ?case
  proof (cases "i < length xs")
    case True
    then have jlt: "j < (length xs + b - 1) div b"
      using batch_count_le[of b j "length xs"] 1(2,3) by simp
    have idiv: "i div b = j" using 1(2,3) by simp
    from 1(4) True 1(2) have opened: "open_w sys (batch_file_name out (i div b)) = None"
      by (subst (asm) batch_loop.simps) (auto split: option.splits prod.splits)
    from 1(4) True 1(2) opened obtain rest where
      rest: "batch_loop sys out b xs (i + b) = (None, rest)"
      and ws: "ws = (batch_file_name out (i div b), take b (drop i xs)) # rest"
      by (subst (asm) batch_loop.simps) (auto split: prod.splits)
    have "rest = map (\<lambda>k. (batch_file_name out k, take b (drop (k * b) xs)))
          [Suc j..<(length xs + b - 1) div b]"
      using 1(1)[of "Suc j" rest] True 1(2,3) opened rest by simp
    then show ?thesis using ws idiv jlt 1(3) by (simp add: upt_conv_Cons)
  next
    case False
    then have "(length xs + b - 1) div b \<le> j"
      using batch_count_ge[of b j "length xs"] 1(2,3) by simp
    moreover have "ws = []"
      using False 1(4) by (subst (asm) batch_loop.simps) simp
    ultimately show ?thesis by simp
  qed
qed

lemma batch_loop_accepted:
  "(\<And>p. open_w sys p = None) \<Longrightarrow> fst (batch_loop sys out b xs i) = None"
proof (induction sys out b xs i rule: batch_loop.induct)
  case (1 sys out b xs i)
  show ?case
  proof (cases "0 < b \<and> i < length xs")
    case True
    then show ?thesis
      using 1(1)[OF True] 1(2)
      by (subst batch_loop.simps) (auto split: prod.splits)
  next
    case False
    then show ?thesis by (subst batch_loop.simps) auto
  qed
qed

lemma concat_slices:
  "0 < b \<Longrightarrow> concat (map (\<lambda>k. take b (drop (k * b) xs)) [0..<m]) = take (m * b) xs"
proof (induction m)
  case 0
  then show ?case by simp
next
  case (Suc m)
  have "take (Suc m * b) xs = take (m * b) xs @ take b (drop (m * b) xs)"
    using take_add[of "m * b" b xs] by (simp add: add.commute)
  with Suc show ?case by simp
qed

lemma batch_count_covers: "0 < b \<Longrightarrow> n \<le> ((n + b - 1) div b) * b" for b n :: nat
proof -
  assume b: "0 < b"
  have "n + b - 1 = ((n + b - 1) div b) * b + (n + b - 1) mod b" by simp
  moreover have "(n + b - 1) mod b < b" using b by simp
  ultimately show ?thesis by linarith
qed

lemma batch_count_ceiling:
  "0 < b \<Longrightarrow> int ((n + b - 1) div b) = \<lceil>real n / real b\<rceil>"
proof -
  assume b: "0 < b"
  let ?c = "(n + b - 1) div b"
  have up: "n \<le> ?c * b" using batch_count_covers[OF b] .
  have "?c * b \<le> n + b - 1" by simp
  then have lo: "?c * b < n + b" using b by linarith
  have "real n / real b \<le> real ?c"
    using up b by (simp add: pos_divide_le_eq flip: of_nat_mult)
  moreover have "real ?c - 1 < real n / real b"
  proof -
    have "real (?c * b) < real (n + b)" using lo by (simp only: of_nat_less_iff)
    then have "(real ?c - 1) * real b < real n" by (simp add: algebra_simps)
    then show ?thesis using b by (simp add: pos_less_divide_eq)
  qed
  ultimately have "\<lceil>real n / real b\<rceil> = int ?c"
    by (intro ceiling_unique) simp_all
  then show ?thesis by simp
qed

lemma batch_file_name_inj: "batch_file_name out j = batch_file_name out k \<Longrightarrow> j = k"
  by (simp add: batch_file_name_def str_of_nat_inj)

lemma all_file_name_not_batch: "all_file_name out \<noteq> batch_file_name out k"
  by (simp add: all_file_name_def batch_file_name_def)

lemma resolve_urls_spec:
  "resolve_urls object_paths uids acc m =
     (acc @ spec_url_sequence object_paths uids,
      m + length (filter (\<lambda>uid. object_paths uid = None) uids))"
  by (induction uids arbitrary: acc m) (auto simp: spec_url_sequence_def split: option.splits)

lemma create_download_list_returns:
  assumes "0 < batch_size" and "makedirs sys ''download_batches'' = None"
    and "\<And>p. open_w sys p = None"
  shows "\<exists>r. create_download_list sys uids paths out batch_size = Inr r"
proof -
  obtain ws where "batch_loop sys out (nat batch_size) (spec_url_sequence paths uids) 0 = (None, ws)"
    using batch_loop_accepted[of sys out "nat batch_size" "spec_url_sequence paths uids" 0]
      assms(3)
    by (metis prod.collapse)
  then show ?thesis
    using assms by (simp add: create_download_list_def resolve_urls_spec)
qed

lemma create_download_list_pos:
  assumes "0 < batch_size"
    and "create_download_list sys uids paths out batch_size = Inr r"
  shows "r = \<lparr> batch_writes =
             map (\<lambda>k. (batch_file_name out k,
                        take (nat batch_size)
                          (drop (k * nat batch_size) (spec_url_sequence paths uids))))
               [0..<(length (spec_url_sequence paths uids) + nat batch_size - 1)
                      div nat batch_size],
           all_write = (all_file_name out, spec_url_sequence paths uids),
           printed_batch_count =
             int (length (spec_url_sequence paths uids)) div batch_size + 1,
           missing = length (filter (\<lambda>uid. paths uid = None) uids),
           returned_urls = spec_url_sequence paths uids \<rparr>"
proof -
  let ?urls = "spec_url_sequence paths uids"
  from assms obtain ws where
    loop: "batch_loop sys out (nat batch_size) ?urls 0 = (None, ws)"
    and r: "r = \<lparr> batch_writes = ws, all_write = (all_file_name out, ?urls),
           printed_batch_count = int (length ?urls) div batch_size + 1,
           missing = length (filter (\<lambda>uid. paths uid = None) uids),
           returned_urls = ?urls \<rparr>"
    by (auto simp: create_download_list_def resolve_urls_spec
        split: option.splits prod.splits if_splits)
  have "ws = map (\<lambda>k. (batch_file_name out k, take (nat batch_size) (drop (k * nat batch_size) ?urls)))
          [0..<(length ?urls + nat batch_size - 1) div nat batch_size]"
    using batch_loop_writes[of "nat batch_size" 0 0 sys out ?urls ws] loop assms(1) by simp
  with r show ?thesis by simp
qed

text \<open>
  Claim C2. Let \<open>urls\<close> be the URL sequence resolved from the UID list and the path
  table. For a positive batch size the batcher returns whenever the operating system
  lets it make the directory and open its files; and whenever it returns, the file of
  all URLs holds \<open>urls\<close>, batch \<open>k\<close> holds the contiguous slice of \<open>urls\<close> that
  starts at \<open>k * batch_size\<close>, the batches in the order of their indices concatenate
  to \<open>urls\<close>, no batch is empty, every batch has at most \<open>batch_size\<close> URLs and
  every batch but the last has exactly \<open>batch_size\<close>.
\<close>

theorem batch_partition:
  assumes "0 < batch_size"
  shows "(makedirs sys ''download_batches'' = None \<and> (\<forall>p. open_w sys p = None)
            \<longrightarrow> (\<exists>r. create_download_list sys uids paths out batch_size = Inr r))
         \<and> (\<forall>r. create_download_list sys uids paths out batch_size = Inr r \<longrightarrow>
               returned_urls r = spec_url_sequence paths uids
             \<and> all_write r = (all_file_name out, spec_url_sequence paths uids)
             \<and> concat (map snd (batch_writes r)) = spec_url_sequence paths uids
             \<and> (\<forall>k < length (batch_writes r).
                   snd (batch_writes r ! k)
                     = take (nat batch_size)
                         (drop (k * nat batch_size) (spec_url_sequence paths uids))
                   \<and> snd (batch_writes r ! k) \<noteq> []
                   \<and> length (snd (batch_writes r ! k)) \<le> nat batch_size
                   \<and> (Suc k < length (batch_writes r)
                        \<longrightarrow> length (snd (batch_writes r ! k)) = nat batch_size)))"
proof (intro conjI allI impI)
  assume "makedirs sys ''download_batches'' = None \<and> (\<forall>p. open_w sys p = None)"
  then show "\<exists>r. create_download_list sys uids paths out batch_size = Inr r"
    using create_download_list_returns[OF assms, of sys uids paths out] by blast
next
  fix r
  assume run: "create_download_list sys uids paths out batch_size = Inr r"
  let ?urls = "spec_url_sequence paths uids"
  let ?b = "nat batch_size"
  let ?c = "(length ?urls + ?b - 1) div ?b"
  have b: "0 < ?b" using assms by simp
  note eq = create_download_list_pos[OF assms run]
  have cat: "concat (map (\<lambda>k. take ?b (drop (k * ?b) ?urls)) [0..<?c]) = ?urls"
    using concat_slices[OF b, of ?urls ?c] batch_count_covers[OF b, of "length ?urls"]
    by simp
  have len: "length (batch_writes r) = ?c" by (subst eq) simp
  have nth: "snd (batch_writes r ! k) = take ?b (drop (k * ?b) ?urls)" if "k < ?c" for k
    using that by (subst eq) simp
  have full: "length (take ?b (drop (k * ?b) ?urls)) = ?b" if "Suc k < ?c" for k
  proof -
    have "Suc k * ?b \<le> (?c - 1) * ?b" using that by (intro mult_le_mono1) simp
    also have "\<dots> = ?c * ?b - ?b" by (simp add: diff_mult_distrib)
    also have "\<dots> \<le> length ?urls + ?b - 1 - ?b"
      by (intro diff_le_mono) simp
    finally have "Suc k * ?b \<le> length ?urls" by simp
    then show ?thesis by simp
  qed
  have nonempty: "take ?b (drop (k * ?b) ?urls) \<noteq> []" if "k < ?c" for k
  proof -
    have "k * ?b < length ?urls"
    proof (rule ccontr)
      assume "\<not> k * ?b < length ?urls"
      then have "?c \<le> k" using batch_count_ge[OF b, of k "length ?urls"] by simp
      with that show False by simp
    qed
    then show ?thesis using b by simp
  qed
  show "returned_urls r = ?urls" by (subst eq) simp
  show "all_write r = (all_file_name out, ?urls)" by (subst eq) simp
  show "concat (map snd (batch_writes r)) = ?urls"
    using cat by (subst eq) (simp add: comp_def)
  fix k
  assume k: "k < length (batch_writes r)"
  then have kc: "k < ?c" using len by simp
  show "snd (batch_writes r ! k) = take ?b (drop (k * ?b) ?urls)" using nth[OF kc] .
  show "snd (batch_writes r ! k) \<noteq> []" using nth[OF kc] nonempty[OF kc] by simp
  show "length (snd (batch_writes r ! k)) \<le> ?b" using nth[OF kc] by simp
  assume "Suc k < length (batch_writes r)"
  then show "length (snd (batch_writes r ! k)) = ?b" using nth[OF kc] full[of k] len by simp
qed

theorem batch_partition_witness:
  "(0::int) < 2
   \<and> makedirs accepting_os ''download_batches'' = None
   \<and> (\<forall>p. open_w accepting_os p = None)
   \<and> (\<exists>r. create_download_list accepting_os [''a'', ''b'', ''missing'', ''c'']
             [''a'' \<mapsto> ''x.glb'', ''c'' \<mapsto> ''z.glb'', ''b'' \<mapsto> ''y.glb''] ''mvd'' 2 = Inr r
        \<and> map snd (batch_writes r) = [[base_url @ ''x.glb'', base_url @ ''y.glb''], [base_url @ ''z.glb'']]
        \<and> all_write r = (''download_batches/mvd_all.json'',
             [base_url @ ''x.glb'', base_url @ ''y.glb'', base_url @ ''z.glb'']))"
proof -
  let ?uids = "[''a'', ''b'', ''missing'', ''c'']"
  let ?paths = "[''a'' \<mapsto> ''x.glb'', ''c'' \<mapsto> ''z.glb'', ''b'' \<mapsto> ''y.glb'']"
  let ?run = "create_download_list accepting_os ?uids ?paths ''mvd'' 2"
  have pos: "(0::int) < 2" by simp
  have mk: "makedirs accepting_os ''download_batches'' = None" by (simp add: accepting_os_def)
  have op: "\<forall>p. open_w accepting_os p = None" by (simp add: accepting_os_def)
  have urls: "spec_url_sequence ?paths ?uids
      = [base_url @ ''x.glb'', base_url @ ''y.glb'', base_url @ ''z.glb'']"
    by (simp add: spec_url_sequence_def)
  note t = batch_partition[OF pos, of accepting_os ?uids ?paths "''mvd''"]
  from t mk op obtain r where r: "?run = Inr r" by blast
  from t r have all: "all_write r = (all_file_name ''mvd'', spec_url_sequence ?paths ?uids)"
    and cat: "concat (map snd (batch_writes r)) = spec_url_sequence ?paths ?uids"
    and each: "\<forall>k < length (batch_writes r).
                   snd (batch_writes r ! k)
                     = take (nat 2) (drop (k * nat 2) (spec_url_sequence ?paths ?uids))
                   \<and> snd (batch_writes r ! k) \<noteq> []"
    by blast+
  have len: "length (batch_writes r) = 2"
  proof -
    have "\<not> 2 < length (batch_writes r)"
    proof
      assume "2 < length (batch_writes r)"
      with each have "take (nat 2) (drop (2 * nat 2) (spec_url_sequence ?paths ?uids)) \<noteq> []"
        by (metis)
      then show False by (simp add: urls)
    qed
    moreover have "\<not> length (batch_writes r) < 2"
    proof
      assume lt: "length (batch_writes r) < 2"
      have "length (concat (map snd (batch_writes r))) \<le> 2"
      proof (cases "batch_writes r")
        case Nil
        then show ?thesis by simp
      next
        case (Cons w ws)
        with lt have ws: "ws = []" by simp
        from each Cons have "snd w = take (nat 2) (drop 0 (spec_url_sequence ?paths ?uids))"
          by (metis length_greater_0_conv list.distinct(1) mult_zero_left nth_Cons_0)
        then show ?thesis using Cons ws by simp
      qed
      then show False by (simp add: cat urls)
    qed
    ultimately show ?thesis by simp
  qed
  from each len have "snd (batch_writes r ! 0) = [base_url @ ''x.glb'', base_url @ ''y.glb'']"
    and "snd (batch_writes r ! 1) = [base_url @ ''z.glb'']"
    by (simp_all add: urls)
  with len have "map snd (batch_writes r) = [[base_url @ ''x.glb'', base_url @ ''y.glb''], [base_url @ ''z.glb'']]"
    by (intro nth_equalityI) (auto simp: less_Suc_eq numeral_2_eq_2)
  moreover have "all_write r = (''download_batches/mvd_all.json'',
             [base_url @ ''x.glb'', base_url @ ''y.glb'', base_url @ ''z.glb''])"
    using all by (simp add: urls all_file_name_def)
  ultimately have "\<exists>r. ?run = Inr r
        \<and> map snd (batch_writes r) = [[base_url @ ''x.glb'', base_url @ ''y.glb''], [base_url @ ''z.glb'']]
        \<and> all_write r = (''download_batches/mvd_all.json'',
             [base_url @ ''x.glb'', base_url @ ''y.glb'', base_url @ ''z.glb''])"
    using r by (intro exI[of _ r] conjI)
  with pos mk op show ?thesis by (intro conjI)
qed

text \<open>
  Claim C10. Let \<open>n\<close> be the number of URLs resolved from the UID list and the path
  table. For a positive batch size, whenever the batcher returns it has written exactly
  \<open>\<lceil>n / batch_size\<rceil>\<close> batch files (none when \<open>n = 0\<close>), named by the batch
  indices \<open>0, 1, \<dots>\<close> in order, pairwise different and different from the file of all
  URLs, while the summary prints \<open>n div batch_size + 1\<close>; and it returns whenever the
  operating system lets it make the directory and open its files.
\<close>

theorem batch_file_count:
  assumes "0 < batch_size"
  shows "(makedirs sys ''download_batches'' = None \<and> (\<forall>p. open_w sys p = None)
            \<longrightarrow> (\<exists>r. create_download_list sys uids paths out batch_size = Inr r))
         \<and> (\<forall>r. create_download_list sys uids paths out batch_size = Inr r \<longrightarrow>
               int (length (batch_writes r))
                 = \<lceil>real (length (spec_url_sequence paths uids)) / real_of_int batch_size\<rceil>
             \<and> map fst (batch_writes r)
                 = map (batch_file_name out)
                     [0..<nat \<lceil>real (length (spec_url_sequence paths uids))
                                / real_of_int batch_size\<rceil>]
             \<and> distinct (map fst (batch_writes r))
             \<and> fst (all_write r) = all_file_name out
             \<and> all_file_name out \<notin> set (map fst (batch_writes r))
             \<and> (spec_url_sequence paths uids = [] \<longrightarrow> batch_writes r = [])
             \<and> printed_batch_count r
                 = int (length (spec_url_sequence paths uids)) div batch_size + 1)"
proof (intro conjI allI impI)
  assume "makedirs sys ''download_batches'' = None \<and> (\<forall>p. open_w sys p = None)"
  then show "\<exists>r. create_download_list sys uids paths out batch_size = Inr r"
    using create_download_list_returns[OF assms, of sys uids paths out] by blast
next
  fix r
  assume run: "create_download_list sys uids paths out batch_size = Inr r"
  let ?urls = "spec_url_sequence paths uids"
  let ?b = "nat batch_size"
  let ?c = "(length ?urls + ?b - 1) div ?b"
  have b: "0 < ?b" using assms by simp
  note eq = create_download_list_pos[OF assms run]
  have ceil: "int ?c = \<lceil>real (length ?urls) / real_of_int batch_size\<rceil>"
    using batch_count_ceiling[OF b, of "length ?urls"] assms by simp
  then have ceil': "nat \<lceil>real (length ?urls) / real_of_int batch_size\<rceil> = ?c"
    by (metis nat_int)
  have names: "map fst (batch_writes r) = map (batch_file_name out) [0..<?c]"
    by (subst eq) (simp add: comp_def)
  have dist: "distinct (map (batch_file_name out) [0..<?c])"
    by (simp add: distinct_map inj_on_def) (metis batch_file_name_inj)
  have notall: "all_file_name out \<notin> set (map (batch_file_name out) [0..<?c])"
    using all_file_name_not_batch[of out] by auto
  show "int (length (batch_writes r)) = \<lceil>real (length ?urls) / real_of_int batch_size\<rceil>"
    using ceil by (subst eq) simp
  show "map fst (batch_writes r)
      = map (batch_file_name out) [0..<nat \<lceil>real (length ?urls) / real_of_int batch_size\<rceil>]"
    using names by (simp only: ceil')
  show "distinct (map fst (batch_writes r))" unfolding names using dist .
  show "fst (all_write r) = all_file_name out" by (subst eq) simp
  show "all_file_name out \<notin> set (map fst (batch_writes r))" unfolding names using notall .
  show "printed_batch_count r = int (length ?urls) div batch_size + 1" by (subst eq) simp
  assume "?urls = []"
  then have "?c = 0" using b by simp
  then show "batch_writes r = []" by (subst eq) simp
qed

theorem batch_file_count_witness:
  "(0::int) < 2
   \<and> makedirs accepting_os ''download_batches'' = None
   \<and> (\<forall>p. open_w accepting_os p = None)
   \<and> (\<exists>r. create_download_list accepting_os [''a'', ''b'', ''missing'', ''c'']
             [''a'' \<mapsto> ''x.glb'', ''c'' \<mapsto> ''z.glb'', ''b'' \<mapsto> ''y.glb''] ''mvd'' 2 = Inr r
        \<and> map fst (batch_writes r)
            = [''download_batches/mvd_batch_0.json'', ''download_batches/mvd_batch_1.json'']
        \<and> fst (all_write r) = ''download_batches/mvd_all.json''
        \<and> printed_batch_count r = 2)"
proof -
  let ?uids = "[''a'', ''b'', ''missing'', ''c'']"
  let ?paths = "[''a'' \<mapsto> ''x.glb'', ''c'' \<mapsto> ''z.glb'', ''b'' \<mapsto> ''y.glb'']"
  let ?run = "create_download_list accepting_os ?uids ?paths ''mvd'' 2"
  have pos: "(0::int) < 2" by simp
  have mk: "makedirs accepting_os ''download_batches'' = None" by (simp add: accepting_os_def)
  have op: "\<forall>p. open_w accepting_os p = None" by (simp add: accepting_os_def)
  have n: "length (spec_url_sequence ?paths ?uids) = 3"
    by (simp add: spec_url_sequence_def)
  have c: "nat \<lceil>real 3 / real_of_int 2\<rceil> = 2" by simp
  have names: "map (batch_file_name ''mvd'') [0..<2]
      = [''download_batches/mvd_batch_0.json'', ''download_batches/mvd_batch_1.json'']"
    by code_simp
  note t = batch_file_count[OF pos, of accepting_os ?uids ?paths "''mvd''"]
  from t mk op obtain r where r: "?run = Inr r" by blast
  from t r have "map fst (batch_writes r)
                 = map (batch_file_name ''mvd'')
                     [0..<nat \<lceil>real (length (spec_url_sequence ?paths ?uids)) / real_of_int 2\<rceil>]"
    and a: "fst (all_write r) = all_file_name ''mvd''"
    and pr: "printed_batch_count r = int (length (spec_url_sequence ?paths ?uids)) div 2 + 1"
    by blast+
  then have "map fst (batch_writes r)
      = [''download_batches/mvd_batch_0.json'', ''download_batches/mvd_batch_1.json'']"
    by (simp only: n c names)
  moreover have "fst (all_write r) = ''download_batches/mvd_all.json''"
    using a by (simp add: all_file_name_def)
  moreover have "printed_batch_count r = 2" using pr by (simp add: n)
  ultimately have "\<exists>r. ?run = Inr r
        \<and> map fst (batch_writes r)
            = [''download_batches/mvd_batch_0.json'', ''download_batches/mvd_batch_1.json'']
        \<and> fst (all_write r) = ''download_batches/mvd_all.json''
        \<and> printed_batch_count r = 2"
    using r by (intro exI[of _ r] conjI)
  with pos mk op show ?thesis by (intro conjI)
qed

section \<open>Properties of the completion scanner\<close>

lemma scan_items_iff:
  "uid \<in> scan_items items acc \<longleftrightarrow>
     uid \<in> acc \<or> (\<exists>n. (uid, n) \<in> set items \<and> isdir n \<and> is_rendered n)"
  by (induction items acc rule: scan_items.induct) auto

text \<open>
  Claim C5. A subdirectory of the output directory is reported complete exactly when
  it lists at least 16 names ending in \<open>.png\<close> and a \<open>cameras.json\<close>.
\<close>

theorem completion_predicate:
  assumes "distinct (map fst items)" and "(item, n) \<in> set items" and "isdir n"
  shows "item \<in> check_existing_renders (Some items) \<longleftrightarrow>
           16 \<le> length (filter (\<lambda>f. endswith f ''.png'') (listdir n))
           \<and> ''cameras.json'' \<in> set (listdir n)"
proof -
  have same: "m = n" if "(item, m) \<in> set items" for m
    using that assms(1,2) by (meson eq_key_imp_eq_value)
  have "item \<in> check_existing_renders (Some items) \<longleftrightarrow>
          (\<exists>m. (item, m) \<in> set items \<and> isdir m \<and> is_rendered m)"
    by (simp add: check_existing_renders_def scan_items_iff)
  also have "\<dots> \<longleftrightarrow> is_rendered n"
    using same assms(2,3) by blast
  finally show ?thesis by (simp add: is_rendered_def)
qed

theorem completion_predicate_witness:
  "distinct (map fst
      [(''done'', Dir [(''000_depth.png'', File), (''001_depth.png'', File), (''002_depth.png'', File), (''003_depth.png'', File), (''004_depth.png'', File), (''005_depth.png'', File), (''006_depth.png'', File), (''007_depth.png'', File), (''008_depth.png'', File), (''009_depth.png'', File), (''010_depth.png'', File), (''011_depth.png'', File), (''012_depth.png'', File), (''013_depth.png'', File), (''014_depth.png'', File), (''015_depth.png'', File), (''cameras.json'', File)]),
       (''nometa'', Dir [(''000_depth.png'', File), (''001_depth.png'', File), (''002_depth.png'', File), (''003_depth.png'', File), (''004_depth.png'', File), (''005_depth.png'', File), (''006_depth.png'', File), (''007_depth.png'', File), (''008_depth.png'', File), (''009_depth.png'', File), (''010_depth.png'', File), (''011_depth.png'', File), (''012_depth.png'', File), (''013_depth.png'', File), (''014_depth.png'', File), (''015_depth.png'', File)]),
       (''short'', Dir [(''000_depth.png'', File), (''001_depth.png'', File), (''002_depth.png'', File), (''003_depth.png'', File), (''004_depth.png'', File), (''005_depth.png'', File), (''006_depth.png'', File), (''007_depth.png'', File), (''008_depth.png'', File), (''009_depth.png'', File), (''010_depth.png'', File), (''011_depth.png'', File), (''012_depth.png'', File), (''013_depth.png'', File), (''014_depth.png'', File), (''cameras.json'', File)])])
   \<and> (''done'', Dir [(''000_depth.png'', File), (''001_depth.png'', File), (''002_depth.png'', File), (''003_depth.png'', File), (''004_depth.png'', File), (''005_depth.png'', File), (''006_depth.png'', File), (''007_depth.png'', File), (''008_depth.png'', File), (''009_depth.png'', File), (''010_depth.png'', File), (''011_depth.png'', File), (''012_depth.png'', File), (''013_depth.png'', File), (''014_depth.png'', File), (''015_depth.png'', File), (''cameras.json'', File)]) \<in> set
      [(''done'', Dir [(''000_depth.png'', File), (''001_depth.png'', File), (''002_depth.png'', File), (''003_depth.png'', File), (''004_depth.png'', File), (''005_depth.png'', File), (''006_depth.png'', File), (''007_depth.png'', File), (''008_depth.png'', File), (''009_depth.png'', File), (''010_depth.png'', File), (''011_depth.png'', File), (''012_depth.png'', File), (''013_depth.png'', File), (''014_depth.png'', File), (''015_depth.png'', File), (''cameras.json'', File)]),
       (''nometa'', Dir [(''000_depth.png'', File), (''001_depth.png'', File), (''002_depth.png'', File), (''003_depth.png'', File), (''004_depth.png'', File), (''005_depth.png'', File), (''006_depth.png'', File), (''007_depth.png'', File), (''008_depth.png'', File), (''009_depth.png'', File), (''010_depth.png'', File), (''011_depth.png'', File), (''012_depth.png'', File), (''013_depth.png'', File), (''014_depth.png'', File), (''015_depth.png'', File)]),
       (''short'', Dir [(''000_depth.png'', File), (''001_depth.png'', File), (''002_depth.png'', File), (''003_depth.png'', File), (''004_depth.png'', File), (''005_depth.png'', File), (''006_depth.png'', File), (''007_depth.png'', File), (''008_depth.png'', File), (''009_depth.png'', File), (''010_depth.png'', File), (''011_depth.png'', File), (''012_depth.png'', File), (''013_depth.png'', File), (''014_depth.png'', File), (''cameras.json'', File)])]
   \<and> isdir (Dir [(''000_depth.png'', File), (''001_depth.png'', File), (''002_depth.png'', File), (''003_depth.png'', File), (''004_depth.png'', File), (''005_depth.png'', File), (''006_depth.png'', File), (''007_depth.png'', File), (''008_depth.png'', File), (''009_depth.png'', File), (''010_depth.png'', File), (''011_depth.png'', File), (''012_depth.png'', File), (''013_depth.png'', File), (''014_depth.png'', File), (''015_depth.png'', File), (''cameras.json'', File)])
   \<and> ''done'' \<in> check_existing_renders (Some
      [(''done'', Dir [(''000_depth.png'', File), (''001_depth.png'', File), (''002_depth.png'', File), (''003_depth.png'', File), (''004_depth.png'', File), (''005_depth.png'', File), (''006_depth.png'', File), (''007_depth.png'', File), (''008_depth.png'', File), (''009_depth.png'', File), (''010_depth.png'', File), (''011_depth.png'', File), (''012_depth.png'', File), (''013_depth.png'', File), (''014_depth.png'', File), (''015_depth.png'', File), (''cameras.json'', File)]),
       (''nometa'', Dir [(''000_depth.png'', File), (''001_depth.png'', File), (''002_depth.png'', File), (''003_depth.png'', File), (''004_depth.png'', File), (''005_depth.png'', File), (''006_depth.png'', File), (''007_depth.png'', File), (''008_depth.png'', File), (''009_depth.png'', File), (''010_depth.png'', File), (''011_depth.png'', File), (''012_depth.png'', File), (''013_depth.png'', File), (''014_depth.png'', File), (''015_depth.png'', File)]),
       (''short'', Dir [(''000_depth.png'', File), (''001_depth.png'', File), (''002_depth.png'', File), (''003_depth.png'', File), (''004_depth.png'', File), (''005_depth.png'', File), (''006_depth.png'', File), (''007_depth.png'', File), (''008_depth.png'', File), (''009_depth.png'', File), (''010_depth.png'', File), (''011_depth.png'', File), (''012_depth.png'', File), (''013_depth.png'', File), (''014_depth.png'', File), (''cameras.json'', File)])])"
  using completion_predicate[of
      "[(''done'', Dir [(''000_depth.png'', File), (''001_depth.png'', File), (''002_depth.png'', File), (''003_depth.png'', File), (''004_depth.png'', File), (''005_depth.png'', File), (''006_depth.png'', File), (''007_depth.png'', File), (''008_depth.png'', File), (''009_depth.png'', File), (''010_depth.png'', File), (''011_depth.png'', File), (''012_depth.png'', File), (''013_depth.png'', File), (''014_depth.png'', File), (''015_depth.png'', File), (''cameras.json'', File)]),
       (''nometa'', Dir [(''000_depth.png'', File), (''001_depth.png'', File), (''002_depth.png'', File), (''003_depth.png'', File), (''004_depth.png'', File), (''005_depth.png'', File), (''006_depth.png'', File), (''007_depth.png'', File), (''008_depth.png'', File), (''009_depth.png'', File), (''010_depth.png'', File), (''011_depth.png'', File), (''012_depth.png'', File), (''013_depth.png'', File), (''014_depth.png'', File), (''015_depth.png'', File)]),
       (''short'', Dir [(''000_depth.png'', File), (''001_depth.png'', File), (''002_depth.png'', File), (''003_depth.png'', File), (''004_depth.png'', File), (''005_depth.png'', File), (''006_depth.png'', File), (''007_depth.png'', File), (''008_depth.png'', File), (''009_depth.png'', File), (''010_depth.png'', File), (''011_depth.png'', File), (''012_depth.png'', File), (''013_depth.png'', File), (''014_depth.png'', File), (''cameras.json'', File)])]"
      "''done''" "Dir [(''000_depth.png'', File), (''001_depth.png'', File), (''002_depth.png'', File), (''003_depth.png'', File), (''004_depth.png'', File), (''005_depth.png'', File), (''006_depth.png'', File), (''007_depth.png'', File), (''008_depth.png'', File), (''009_depth.png'', File), (''010_depth.png'', File), (''011_depth.png'', File), (''012_depth.png'', File), (''013_depth.png'', File), (''014_depth.png'', File), (''015_depth.png'', File), (''cameras.json'', File)]"]
  by (simp add: endswith_def)

lemma scan_example:
  "check_existing_renders (Some
      [(''done'', Dir [(''000_depth.png'', File), (''001_depth.png'', File), (''002_depth.png'', File), (''003_depth.png'', File), (''004_depth.png'', File), (''005_depth.png'', File), (''006_depth.png'', File), (''007_depth.png'', File), (''008_depth.png'', File), (''009_depth.png'', File), (''010_depth.png'', File), (''011_depth.png'', File), (''012_depth.png'', File), (''013_depth.png'', File), (''014_depth.png'', File), (''015_depth.png'', File), (''cameras.json'', File)]),
       (''nometa'', Dir [(''000_depth.png'', File), (''001_depth.png'', File), (''002_depth.png'', File), (''003_depth.png'', File), (''004_depth.png'', File), (''005_depth.png'', File), (''006_depth.png'', File), (''007_depth.png'', File), (''008_depth.png'', File), (''009_depth.png'', File), (''010_depth.png'', File), (''011_depth.png'', File), (''012_depth.png'', File), (''013_depth.png'', File), (''014_depth.png'', File), (''015_depth.png'', File)]),
       (''short'', Dir [(''000_depth.png'', File), (''001_depth.png'', File), (''002_depth.png'', File), (''003_depth.png'', File), (''004_depth.png'', File), (''005_depth.png'', File), (''006_depth.png'', File), (''007_depth.png'', File), (''008_depth.png'', File), (''009_depth.png'', File), (''010_depth.png'', File), (''011_depth.png'', File), (''012_depth.png'', File), (''013_depth.png'', File), (''014_depth.png'', File), (''cameras.json'', File)])]) = {''done''}"
  by (simp add: check_existing_renders_def is_rendered_def endswith_def)

section \<open>Properties of the splitter\<close>

lemma split_idx_le: "split_idx n \<le> n"
proof -
  have "real n * 0.9 \<le> real n" by simp
  then have "\<lfloor>real n * 0.9\<rfloor> \<le> int n" by (simp add: floor_le_iff)
  then show ?thesis by (simp add: split_idx_def)
qed

lemma split_idx_div: "split_idx n = 9 * n div 10"
proof -
  have "real n * 0.9 = real_of_int (int (9 * n)) / real_of_int 10" by simp
  then have "\<lfloor>real n * 0.9\<rfloor> = int (9 * n) div 10"
    by (simp only: floor_divide_of_int_eq)
  then show ?thesis by (simp add: split_idx_def nat_div_distrib)
qed

text \<open>
  Claim C3. For a listing with pairwise different names and a shuffle that permutes
  its argument, the two lists are disjoint, together they are exactly the listed
  directories, they are the shuffled list cut at \<open>\<lfloor>0.9 * count\<rfloor>\<close>, and they have
  \<open>\<lfloor>0.9 * count\<rfloor>\<close> and \<open>count - \<lfloor>0.9 * count\<rfloor>\<close> elements.
\<close>

theorem split_disjoint_cover:
  assumes "distinct (map fst entries)"
    and "\<And>xs. mset (shuffle xs) = mset xs"
  shows "\<exists>r. subset_lists shuffle (Some entries) = Inr r
           \<and> set (train_uids r) \<inter> set (test_uids r) = {}
           \<and> set (train_uids r) \<union> set (test_uids r) = {d. \<exists>n. (d, n) \<in> set entries \<and> isdir n}
           \<and> train_uids r @ test_uids r
               = shuffle (map fst (filter (\<lambda>(d, n). isdir n) entries))
           \<and> length (train_uids r)
               = nat \<lfloor>0.9 * real (length (filter (\<lambda>(d, n). isdir n) entries))\<rfloor>
           \<and> length (test_uids r)
               = length (filter (\<lambda>(d, n). isdir n) entries)
                 - nat \<lfloor>0.9 * real (length (filter (\<lambda>(d, n). isdir n) entries))\<rfloor>"
proof -
  let ?all = "map fst (filter (\<lambda>(d, n). isdir n) entries)"
  let ?sh = "shuffle ?all"
  let ?k = "split_idx (length ?sh)"
  have len: "length ?sh = length ?all"
    using assms(2)[of ?all] by (metis size_mset)
  have "distinct ?all" using assms(1) by (simp add: distinct_map_filter)
  then have dist: "distinct ?sh"
    using assms(2)[of ?all] by (metis mset_eq_imp_distinct_iff)
  have sets: "set ?sh = set ?all"
    using assms(2)[of ?all] by (metis set_mset_mset)
  have disj: "set (take ?k ?sh) \<inter> set (drop ?k ?sh) = {}"
    using dist by (metis append_take_drop_id distinct_append)
  have cover: "set (take ?k ?sh) \<union> set (drop ?k ?sh) = set ?sh"
    by (metis append_take_drop_id set_append)
  have univ: "set ?all = {d. \<exists>n. (d, n) \<in> set entries \<and> isdir n}"
    by force
  have k: "?k = nat \<lfloor>0.9 * real (length ?all)\<rfloor>"
    by (simp add: split_idx_def len mult.commute)
  have kle: "?k \<le> length ?sh" by (rule split_idx_le)
  show ?thesis
    using disj cover sets univ k kle len
    by (simp add: subset_lists_def Let_def min_absorb2)
qed

theorem split_disjoint_cover_witness:
  "distinct (map fst [(''a'', Dir []), (''b'', Dir []), (''notes.txt'', File), (''c'', Dir [])])
   \<and> (\<forall>xs :: string list. mset (rev xs) = mset xs)
   \<and> (\<exists>r. subset_lists rev (Some [(''a'', Dir []), (''b'', Dir []), (''notes.txt'', File), (''c'', Dir [])]) = Inr r
        \<and> train_uids r = [''c'', ''b''] \<and> test_uids r = [''a''])"
proof -
  have d: "distinct (map fst [(''a'', Dir []), (''b'', Dir []), (''notes.txt'', File), (''c'', Dir [])])"
    by simp
  have p: "\<And>xs :: string list. mset (rev xs) = mset xs" by simp
  have f: "nat \<lfloor>(27::real) / 10\<rfloor> = 2" by simp
  show ?thesis
    using split_disjoint_cover[of "[(''a'', Dir []), (''b'', Dir []), (''notes.txt'', File), (''c'', Dir [])]" rev, OF d p]
    by (auto simp: subset_lists_def split_idx_def f)
qed

section \<open>Properties of the catalog filter\<close>

lemma exclusion_terms_lower: "t \<in> set exclusion_terms \<Longrightarrow> lower t = t"
  by (auto simp: exclusion_terms_def lower_def lower_char_def)

lemma filter_loop_eq:
  "filter_loop object_paths uids acc =
     acc @ filter (\<lambda>uid. case object_paths uid of None \<Rightarrow> False
                | Some path \<Rightarrow> path \<noteq> [] \<and> endswith path ''.glb''
                    \<and> (\<forall>t \<in> set exclusion_terms. \<not> contains (lower path) (lower t))
                    \<and> 10 \<le> length path) uids"
proof (induction uids arbitrary: acc)
  case Nil
  then show ?case by simp
next
  case (Cons uid rest)
  have ex: "list_ex (\<lambda>t. contains (lower path) t) exclusion_terms \<longleftrightarrow>
            \<not> (\<forall>t \<in> set exclusion_terms. \<not> contains (lower path) (lower t))" for path
    by (auto simp: list_ex_iff exclusion_terms_lower)
  show ?case
    by (cases "object_paths uid") (simp_all add: Cons.IH ex Let_def not_less)
qed

text \<open>
  Claim C4. For a non-negative sample size the filter returns without error, and its
  output is the sample restricted, in order, to the UIDs whose catalog path is present
  and non-empty, ends in \<open>.glb\<close>, contains no exclusion term when case is ignored,
  and has at least 10 characters; every other UID is left out.
\<close>

theorem filter_soundness:
  assumes "0 \<le> sample_size"
  shows "\<exists>out. simple_quality_filter sample uids object_paths sample_size = Inr out
           \<and> out = filter (\<lambda>uid. \<exists>path. object_paths uid = Some path
                    \<and> path \<noteq> [] \<and> endswith path ''.glb''
                    \<and> (\<forall>t \<in> set exclusion_terms. \<not> contains (lower path) (lower t))
                    \<and> 10 \<le> length path)
                  (sample uids (nat (min sample_size (int (length uids)))))
           \<and> (\<forall>uid \<in> set out. \<exists>path. object_paths uid = Some path
                    \<and> path \<noteq> [] \<and> endswith path ''.glb''
                    \<and> (\<forall>t \<in> set exclusion_terms. \<not> contains (lower path) (lower t))
                    \<and> 10 \<le> length path)"
proof -
  have pred: "(case object_paths uid of None \<Rightarrow> False
                | Some path \<Rightarrow> path \<noteq> [] \<and> endswith path ''.glb''
                    \<and> (\<forall>t \<in> set exclusion_terms. \<not> contains (lower path) (lower t))
                    \<and> 10 \<le> length path)
      \<longleftrightarrow> (\<exists>path. object_paths uid = Some path
                    \<and> path \<noteq> [] \<and> endswith path ''.glb''
                    \<and> (\<forall>t \<in> set exclusion_terms. \<not> contains (lower path) (lower t))
                    \<and> 10 \<le> length path)" for uid
    by (cases "object_paths uid") simp_all
  have "\<not> min sample_size (int (length uids)) < 0" using assms by simp
  then show ?thesis
    by (simp add: simple_quality_filter_def filter_loop_eq pred Let_def)
qed

theorem filter_soundness_witness:
  "(0::int) \<le> 5 \<and>
   (\<exists>out. simple_quality_filter (\<lambda>xs k. take k xs) [''u1'', ''u2'', ''u3'', ''u4'', ''u5'', ''u6'']
        [''u1'' \<mapsto> ''glbs/000-001/u1.glb'', ''u2'' \<mapsto> ''glbs/000-001/Test_u2.glb'',
         ''u3'' \<mapsto> ''a.glb'', ''u4'' \<mapsto> ''glbs/000-001/u4.fbx'', ''u5'' \<mapsto> []]
        5 = Inr out
      \<and> out = [''u1''])"
proof -
  let ?m = "[''u1'' \<mapsto> ''glbs/000-001/u1.glb'', ''u2'' \<mapsto> ''glbs/000-001/Test_u2.glb'',
         ''u3'' \<mapsto> ''a.glb'', ''u4'' \<mapsto> ''glbs/000-001/u4.fbx'', ''u5'' \<mapsto> []]"
  let ?P = "\<lambda>uid. \<exists>path. ?m uid = Some path
                    \<and> path \<noteq> [] \<and> endswith path ''.glb''
                    \<and> (\<forall>t \<in> set exclusion_terms. \<not> contains (lower path) (lower t))
                    \<and> 10 \<le> length path"
  have c1: "\<forall>t \<in> set exclusion_terms. \<not> contains (lower ''glbs/000-001/u1.glb'') (lower t)"
    by (simp add: exclusion_terms_def lower_def lower_char_def startswith_def)
  have c2: "contains (lower ''glbs/000-001/Test_u2.glb'') (lower ''test'')"
    by code_simp
  have t: "''test'' \<in> set exclusion_terms" by (simp add: exclusion_terms_def)
  have p1: "?P ''u1''" using c1 by (simp add: endswith_def)
  have p2: "\<not> ?P ''u2''" using c2 t by auto
  have p3: "\<not> ?P ''u3''" by simp
  have p4: "\<not> ?P ''u4''" by (simp add: endswith_def)
  have p5: "\<not> ?P ''u5''" by simp
  have "filter ?P [''u1'', ''u2'', ''u3'', ''u4'', ''u5''] = [''u1'']"
    using p1 p2 p3 p4 p5 by (simp only: filter.simps if_True if_False)
  moreover have "take (nat (min 5 (int (length [''u1'', ''u2'', ''u3'', ''u4'', ''u5'', ''u6''])))) [''u1'', ''u2'', ''u3'', ''u4'', ''u5'', ''u6'']
      = [''u1'', ''u2'', ''u3'', ''u4'', ''u5'']"
    by simp
  ultimately show ?thesis
    using filter_soundness[of 5 "\<lambda>xs k. take k xs" "[''u1'', ''u2'', ''u3'', ''u4'', ''u5'', ''u6'']" ?m]
    by (simp only: order.refl) auto
qed

section \<open>Properties of the camera pipeline\<close>

subsection \<open>Loading and downloading an asset\<close>

text \<open>
  Claim C8. \<open>load_object\<close> raises the unsupported-format \<open>ValueError\<close> exactly
  when the path ends neither in \<open>.glb\<close> nor in \<open>.fbx\<close>. For a local path of that
  kind, once the output directory is made and the scene is reset, the run ends in the
  failure report of the top level with that exception, and no file is written. Whatever
  exception ends \<open>save_images\<close> on a local path, the top level reports it and returns.
\<close>

theorem unsupported_format:
  "((\<exists>msg. load_object h p = Some (ValueError msg))
      \<longleftrightarrow> \<not> endswith p ''.glb'' \<and> \<not> endswith p ''.fbx'')
   \<and> (\<not> endswith p ''.glb'' \<and> \<not> endswith p ''.fbx''
        \<longrightarrow> load_object h p = Some (ValueError (''Unsupported file type: '' @ p)))
   \<and> (object_path a = p \<and> \<not> startswith p ''http''
        \<and> os_makedirs h (output_dir a) files = None \<and> run_stage h Reset = None
        \<and> \<not> endswith p ''.glb'' \<and> \<not> endswith p ''.fbx''
        \<longrightarrow> main h a files
              = (Failed p (ValueError (''Unsupported file type: '' @ p)), files))
   \<and> (object_path a = p \<and> \<not> startswith p ''http''
        \<and> fst (save_images h a p files) = Some e
        \<longrightarrow> main h a files = (Failed p e, snd (save_images h a p files)))"
proof -
  have host: "stage_exn h s \<noteq> Some (ValueError msg)" for s msg
    by (cases "run_stage h s") (simp_all add: stage_exn_def)
  have 1: "(\<exists>msg. load_object h p = Some (ValueError msg))
      \<longleftrightarrow> \<not> endswith p ''.glb'' \<and> \<not> endswith p ''.fbx''"
    using host by (simp add: load_object_def)
  have 2: "\<not> endswith p ''.glb'' \<and> \<not> endswith p ''.fbx''
        \<longrightarrow> load_object h p = Some (ValueError (''Unsupported file type: '' @ p))"
    by (simp add: load_object_def)
  have 3: "object_path a = p \<and> \<not> startswith p ''http''
        \<and> os_makedirs h (output_dir a) files = None \<and> run_stage h Reset = None
        \<and> \<not> endswith p ''.glb'' \<and> \<not> endswith p ''.fbx''
        \<longrightarrow> main h a files
              = (Failed p (ValueError (''Unsupported file type: '' @ p)), files)"
    by (simp add: main_def save_images_def load_object_def stage_exn_def Let_def)
  have 4: "object_path a = p \<and> \<not> startswith p ''http''
        \<and> fst (save_images h a p files) = Some e
        \<longrightarrow> main h a files = (Failed p e, snd (save_images h a p files))"
    by (cases "save_images h a p files") (auto simp: main_def)
  from 1 2 3 4 show ?thesis by blast
qed

theorem unsupported_format_witness:
  "\<not> startswith ''model.obj'' ''http''
   \<and> os_makedirs frame_host ''./views'' Map.empty = None
   \<and> run_stage frame_host Reset = None
   \<and> \<not> endswith ''model.obj'' ''.glb'' \<and> \<not> endswith ''model.obj'' ''.fbx''
   \<and> load_object frame_host ''model.obj''
        = Some (ValueError ''Unsupported file type: model.obj'')
   \<and> main frame_host
        \<lparr> object_path = ''model.obj'', output_dir = ''./views'', num_images = 64,
          camera_dist = 1.5 \<rparr> Map.empty
      = (Failed ''model.obj'' (ValueError ''Unsupported file type: model.obj''), Map.empty)"
  using unsupported_format[of frame_host "''model.obj''"
      "\<lparr> object_path = ''model.obj'', output_dir = ''./views'', num_images = 64,
          camera_dist = 1.5 \<rparr>" Map.empty]
  by (simp add: startswith_def endswith_def frame_host_def os_makedirs_def path_exists_def
      accepting_os_def)

text \<open>
  With a regular file in the place of the output directory the run ends before the
  asset is loaded, in the exception of \<open>os.makedirs\<close>.
\<close>

lemma output_dir_is_a_file:
  "main frame_host
     \<lparr> object_path = ''model.obj'', output_dir = ''out'', num_images = 64,
       camera_dist = 1.5 \<rparr> [''out'' \<mapsto> Asset ''x'']
   = (Failed ''model.obj'' (OSError ''File exists''), [''out'' \<mapsto> Asset ''x''])"
  by (simp add: main_def save_images_def os_makedirs_def path_exists_def startswith_def
      Let_def)



subsection \<open>Camera intrinsics\<close>

text \<open>
  Claim C7. Every record of the metadata file carries
  \<open>f_x = focal_length * resolution_x / sensor_width\<close>,
  \<open>f_y = focal_length * resolution_y / sensor_height\<close> with
  \<open>sensor_height = sensor_width * (resolution_y / resolution_x)\<close>, and the principal
  point \<open>(resolution_x / 2, resolution_y / 2)\<close>, no divisor being zero. With the
  settings of the script (256 by 256, sensor width 32, lens 35) these are
  \<open>(280, 280)\<close> and \<open>(128, 128)\<close> in every record written.
\<close>

theorem intrinsics_formula:
  "read_cameras (save_camera_parameters_mvd h rs views_dir num_views cam_dist cam files)
       (path_join views_dir ''cameras.json'')
     = camera_params h rs num_views cam_dist cam
   \<and> (resolution_x rs \<noteq> 0 \<and> resolution_y rs \<noteq> 0 \<and> sensor_width cam \<noteq> 0 \<longrightarrow>
        map focal_length (camera_params h rs num_views cam_dist cam)
          = replicate (nat num_views)
              (lens cam * real_of_int (resolution_x rs) / sensor_width cam,
               lens cam * real_of_int (resolution_y rs)
                 / (sensor_width cam
                     * (real_of_int (resolution_y rs) / real_of_int (resolution_x rs))))
        \<and> map principal_point (camera_params h rs num_views cam_dist cam)
          = replicate (nat num_views)
              (real_of_int (resolution_x rs) / 2, real_of_int (resolution_y rs) / 2))
   \<and> map focal_length (camera_params h render num_views cam_dist setup_camera)
       = replicate (nat num_views) (280, 280)
   \<and> map principal_point (camera_params h render num_views cam_dist setup_camera)
       = replicate (nat num_views) (128, 128)"
proof -
  have rep: "map (\<lambda>i. c) [0..<n] = replicate n c" for c :: "real \<times> real" and n
    by (simp add: map_replicate_const)
  have f: "map focal_length (camera_params h rs num_views cam_dist cam)
       = replicate (nat num_views)
           (lens cam * real_of_int (resolution_x rs) / sensor_width cam,
            lens cam * real_of_int (resolution_y rs)
              / (sensor_width cam * (real_of_int (resolution_y rs) / real_of_int (resolution_x rs))))"
    for rs cam
    by (simp add: camera_params_def camera_param_def Let_def comp_def rep)
  have p: "map principal_point (camera_params h rs num_views cam_dist cam)
       = replicate (nat num_views)
           (real_of_int (resolution_x rs) / 2, real_of_int (resolution_y rs) / 2)"
    for rs cam
    by (simp add: camera_params_def camera_param_def Let_def comp_def rep)
  have r: "read_cameras (save_camera_parameters_mvd h rs views_dir num_views cam_dist cam files)
       (path_join views_dir ''cameras.json'')
     = camera_params h rs num_views cam_dist cam"
    by (simp add: read_cameras_def save_camera_parameters_mvd_def)
  have f0: "map focal_length (camera_params h render num_views cam_dist setup_camera)
       = replicate (nat num_views) (280, 280)"
    by (simp add: f render_def setup_camera_def)
  have p0: "map principal_point (camera_params h render num_views cam_dist setup_camera)
       = replicate (nat num_views) (128, 128)"
    by (simp add: p render_def setup_camera_def)
  from r f[of rs cam] p[of rs cam] f0 p0 show ?thesis by (intro conjI impI)
qed

theorem intrinsics_formula_witness:
  "resolution_x render \<noteq> 0 \<and> resolution_y render \<noteq> 0 \<and> sensor_width setup_camera \<noteq> 0
   \<and> map focal_length (read_cameras
      (save_camera_parameters_mvd frame_host render ''views/cube/views'' 16 1.5 setup_camera
         Map.empty)
      (path_join ''views/cube/views'' ''cameras.json''))
     = replicate 16 (35 * 256 / 32, 35 * 256 / (32 * (256 / 256)))
   \<and> map focal_length (read_cameras
      (save_camera_parameters_mvd frame_host render ''views/cube/views'' 16 1.5 setup_camera
         Map.empty)
      (path_join ''views/cube/views'' ''cameras.json''))
     = replicate 16 (280, 280)
   \<and> map principal_point (read_cameras
      (save_camera_parameters_mvd frame_host render ''views/cube/views'' 16 1.5 setup_camera
         Map.empty)
      (path_join ''views/cube/views'' ''cameras.json''))
     = replicate 16 (128, 128)"
proof -
  have nz: "resolution_x render \<noteq> 0 \<and> resolution_y render \<noteq> 0 \<and> sensor_width setup_camera \<noteq> 0"
    by (simp add: render_def setup_camera_def)
  note t = intrinsics_formula[of frame_host render "''views/cube/views''" 16 "1.5" setup_camera
      Map.empty]
  from t have r: "read_cameras
      (save_camera_parameters_mvd frame_host render ''views/cube/views'' 16 1.5 setup_camera
         Map.empty)
      (path_join ''views/cube/views'' ''cameras.json'')
     = camera_params frame_host render 16 1.5 setup_camera"
    by (rule conjunct1)
  from t nz have g: "map focal_length (camera_params frame_host render 16 1.5 setup_camera)
     = replicate (nat 16)
         (lens setup_camera * real_of_int (resolution_x render) / sensor_width setup_camera,
          lens setup_camera * real_of_int (resolution_y render)
            / (sensor_width setup_camera
                * (real_of_int (resolution_y render) / real_of_int (resolution_x render))))"
    by blast
  from t have f: "map focal_length (camera_params frame_host render 16 1.5 setup_camera)
     = replicate (nat 16) (280, 280)"
    and p: "map principal_point (camera_params frame_host render 16 1.5 setup_camera)
     = replicate (nat 16) (128, 128)"
    by blast+
  have g': "map focal_length (camera_params frame_host render 16 1.5 setup_camera)
     = replicate 16 (35 * 256 / 32, 35 * 256 / (32 * (256 / 256)))"
    unfolding g by (simp add: render_def setup_camera_def)
  from nz f p g' show ?thesis unfolding r by simp
qed

subsection \<open>Camera positions\<close>

lemma sin_poly7: "(\<Sum>m<7. sin_coeff m * x ^ m) = x - x^3 / 6 + x^5 / 120" for x :: real
proof -
  have c: "sin_coeff (Suc 0) = 1" "sin_coeff 2 = 0" "sin_coeff 3 = - 1/6" "sin_coeff 4 = 0"
    "sin_coeff 5 = 1/120" "sin_coeff 6 = 0"
    by (simp_all add: sin_coeff_def fact_numeral)
  have s: "{..<7::nat} = {0, 1, 2, 3, 4, 5, 6}" by auto
  show ?thesis unfolding s by (simp add: c)
qed

lemma cos_poly8: "(\<Sum>m<8. cos_coeff m * x ^ m) = 1 - x^2 / 2 + x^4 / 24 - x^6 / 720" for x :: real
proof -
  have c: "cos_coeff (Suc 0) = 0" "cos_coeff 2 = - 1/2" "cos_coeff 3 = 0" "cos_coeff 4 = 1/24"
    "cos_coeff 5 = 0" "cos_coeff 6 = - 1/720" "cos_coeff 7 = 0"
    by (simp_all add: cos_coeff_def fact_numeral)
  have s: "{..<8::nat} = {0, 1, 2, 3, 4, 5, 6, 7}" by auto
  show ?thesis unfolding s by (simp add: c)
qed

lemma cos_bound8: "\<bar>cos x - (1 - x^2 / 2 + x^4 / 24 - x^6 / 720)\<bar> \<le> \<bar>x\<bar> ^ 8 / 40320" for x :: real
proof -
  obtain t where "cos x = (\<Sum>m<8. cos_coeff m * x ^ m) + (cos (t + 1/2 * real 8 * pi) / fact 8) * x ^ 8"
    using Maclaurin_cos_expansion[of x 8] by blast
  then have "cos x - (1 - x^2 / 2 + x^4 / 24 - x^6 / 720) = (cos (t + 1/2 * real 8 * pi) / fact 8) * x ^ 8"
    by (simp add: cos_poly8)
  moreover have "\<bar>(cos (t + 1/2 * real 8 * pi) / fact 8) * x ^ 8\<bar> \<le> \<bar>x\<bar> ^ 8 / 40320"
  proof -
    have "\<bar>cos (t + 1/2 * real 8 * pi)\<bar> \<le> 1" by (rule abs_cos_le_one)
    then have "\<bar>cos (t + 1/2 * real 8 * pi)\<bar> * \<bar>x\<bar> ^ 8 \<le> 1 * \<bar>x\<bar> ^ 8"
      by (intro mult_right_mono) simp_all
    then show ?thesis by (simp add: abs_mult power_abs fact_numeral divide_simps)
  qed
  ultimately show ?thesis by simp
qed

lemma sin_elevation: "\<bar>sin (0.5235987901687622::real) - 1/2\<bar> < 1/100000"
proof -
  let ?x = "0.5235987901687622::real"
  have b: "\<bar>sin ?x - (?x - ?x^3 / 6 + ?x^5 / 120)\<bar> \<le> inverse (fact 7) * \<bar>?x\<bar> ^ 7"
    using Maclaurin_sin_bound[of ?x 7] by (simp only: sin_poly7)
  have r: "inverse (fact 7) * \<bar>?x\<bar> ^ 7 < 1/400000"
    by (simp add: fact_numeral power_divide)
  have v: "\<bar>(?x - ?x^3 / 6 + ?x^5 / 120) - 1/2\<bar> < 1/400000"
    by (simp add: power_divide)
  from b r v show ?thesis by linarith
qed

lemma cos_elevation: "\<bar>cos (0.5235987901687622::real) - 0.866\<bar> < 1/10000"
proof -
  let ?x = "0.5235987901687622::real"
  have b: "\<bar>cos ?x - (1 - ?x^2 / 2 + ?x^4 / 24 - ?x^6 / 720)\<bar> \<le> \<bar>?x\<bar> ^ 8 / 40320"
    by (rule cos_bound8)
  have r: "\<bar>?x\<bar> ^ 8 / 40320 < 1/400000"
    by (simp add: power_divide)
  have v: "\<bar>(1 - ?x^2 / 2 + ?x^4 / 24 - ?x^6 / 720) - 0.866\<bar> < 3/100000"
    by (simp add: power_divide)
  from b r v show ?thesis by linarith
qed

lemma camera_param_position:
  "position (camera_param h rs d cam i) = get_camera_position (AZIMUTHS_16 ! i) (ELEVATIONS_16 ! i) d"
  by (simp add: camera_param_def Let_def)

text \<open>
  Claim C6, floats read as reals. The camera position is
  \<open>d * (cos az * cos el, sin az * cos el, sin el)\<close>;
  it is the position recorded for each view, taken at that view's azimuth and
  elevation; for view 0 (azimuth 0, elevation 0.5235987901687622) at distance 1.5 it is
  within 0.0005 of \<open>(1.299, 0, 0.75)\<close>, the second coordinate being exactly 0.
\<close>

theorem camera_position_formula:
  "get_camera_position az el d = (d * (cos az * cos el), d * (sin az * cos el), d * sin el)
   \<and> (\<forall>i < nat num_views.
         position (camera_params h rs num_views d cam ! i)
           = (d * (cos (AZIMUTHS_16 ! i) * cos (ELEVATIONS_16 ! i)),
              d * (sin (AZIMUTHS_16 ! i) * cos (ELEVATIONS_16 ! i)),
              d * sin (ELEVATIONS_16 ! i)))
   \<and> AZIMUTHS_16 ! 0 = 0 \<and> ELEVATIONS_16 ! 0 = 0.5235987901687622
   \<and> \<bar>fst (get_camera_position (AZIMUTHS_16 ! 0) (ELEVATIONS_16 ! 0) 1.5) - 1.299\<bar> < 0.0005
   \<and> fst (snd (get_camera_position (AZIMUTHS_16 ! 0) (ELEVATIONS_16 ! 0) 1.5)) = 0
   \<and> \<bar>snd (snd (get_camera_position (AZIMUTHS_16 ! 0) (ELEVATIONS_16 ! 0) 1.5)) - 0.75\<bar> < 0.0005"
proof -
  have f: "get_camera_position az el d = (d * (cos az * cos el), d * (sin az * cos el), d * sin el)"
    for az el d
    by (simp add: get_camera_position_def Let_def mult.assoc)
  have rec: "\<forall>i < nat num_views.
         position (camera_params h rs num_views d cam ! i)
           = (d * (cos (AZIMUTHS_16 ! i) * cos (ELEVATIONS_16 ! i)),
              d * (sin (AZIMUTHS_16 ! i) * cos (ELEVATIONS_16 ! i)),
              d * sin (ELEVATIONS_16 ! i))"
    by (simp add: camera_params_def camera_param_position f)
  have a0: "AZIMUTHS_16 ! 0 = 0" by (simp add: AZIMUTHS_16_def)
  have e0: "ELEVATIONS_16 ! 0 = 0.5235987901687622" by (simp add: ELEVATIONS_16_def)
  have cb: "0.8659 < cos (0.5235987901687622::real)" "cos (0.5235987901687622::real) < 0.8661"
    using cos_elevation[unfolded abs_less_iff] by simp_all
  have sb: "0.4999 < sin (0.5235987901687622::real)" "sin (0.5235987901687622::real) < 0.5001"
    using sin_elevation[unfolded abs_less_iff] by simp_all
  have x: "\<bar>fst (get_camera_position (AZIMUTHS_16 ! 0) (ELEVATIONS_16 ! 0) 1.5) - 1.299\<bar> < 0.0005"
    unfolding f a0 e0 fst_conv abs_less_iff using cb by simp
  have y: "fst (snd (get_camera_position (AZIMUTHS_16 ! 0) (ELEVATIONS_16 ! 0) 1.5)) = 0"
    by (simp add: f a0)
  have z: "\<bar>snd (snd (get_camera_position (AZIMUTHS_16 ! 0) (ELEVATIONS_16 ! 0) 1.5)) - 0.75\<bar> < 0.0005"
    unfolding f e0 snd_conv abs_less_iff using sb by simp
  from f[of az el d] rec a0 e0 x y z show ?thesis by (intro conjI)
qed

theorem camera_position_formula_witness:
  "(0::nat) < nat 16
   \<and> position (camera_params frame_host render 16 1.5 setup_camera ! 0)
       = (1.5 * (cos 0 * cos 0.5235987901687622),
          1.5 * (sin 0 * cos 0.5235987901687622),
          1.5 * sin 0.5235987901687622)"
proof -
  note t = camera_position_formula[where az = 0 and el = 0 and d = "1.5" and num_views = 16
      and h = frame_host and rs = render and cam = setup_camera]
  have lt: "(0::nat) < nat 16" by simp
  from t have "\<forall>i < nat 16.
         position (camera_params frame_host render 16 1.5 setup_camera ! i)
           = (1.5 * (cos (AZIMUTHS_16 ! i) * cos (ELEVATIONS_16 ! i)),
              1.5 * (sin (AZIMUTHS_16 ! i) * cos (ELEVATIONS_16 ! i)),
              1.5 * sin (ELEVATIONS_16 ! i))"
    by blast
  then have "position (camera_params frame_host render 16 1.5 setup_camera ! 0)
           = (1.5 * (cos (AZIMUTHS_16 ! 0) * cos (ELEVATIONS_16 ! 0)),
              1.5 * (sin (AZIMUTHS_16 ! 0) * cos (ELEVATIONS_16 ! 0)),
              1.5 * sin (ELEVATIONS_16 ! 0))"
    using lt by blast
  moreover from t have "AZIMUTHS_16 ! 0 = 0" and "ELEVATIONS_16 ! 0 = 0.5235987901687622"
    by blast+
  ultimately show ?thesis using lt by simp
qed

subsection \<open>The render loop on a host that writes numbered outputs\<close>

lemma render_view_frame:
  assumes "render_still h = (\<lambda>job files. (None, write_frame_outputs job files))"
    and "i < 100"
  shows "render_view h views_dir d i files =
           (None, \<lambda>p. if p \<in> set (view_files views_dir i) then Some Image
                      else if p \<in> set (host_temps views_dir i) then None
                      else files p)"
proof -
  define rgb where "rgb = path_join views_dir (fmt03d i @ ''_rgb.jpg'')"
  define dt where "dt = path_join views_dir (fmt03d i @ ''_depth0001.png'')"
  define df where "df = path_join views_dir (fmt03d i @ ''_depth.png'')"
  define mt where "mt = path_join views_dir (fmt03d i @ ''_mask0001.jpg'')"
  define mf where "mf = path_join views_dir (fmt03d i @ ''_mask.jpg'')"
  have ne: "rgb \<noteq> dt" "rgb \<noteq> df" "rgb \<noteq> mt" "rgb \<noteq> mf" "dt \<noteq> df" "dt \<noteq> mt" "dt \<noteq> mf"
    "df \<noteq> mt" "df \<noteq> mf" "mt \<noteq> mf"
    using assms(2) by (simp_all add: rgb_def dt_def df_def mt_def mf_def view_path_eq)
  have run: "render_view h views_dir d i files =
      (None, os_rename mt mf (os_rename dt df (files(rgb \<mapsto> Image, dt \<mapsto> Image, mt \<mapsto> Image))))"
    using ne
    by (simp add: render_view_def assms(1) write_frame_outputs_def Let_def path_exists_def
        os_rename_def flip: rgb_def dt_def df_def mt_def mf_def)
  have "os_rename mt mf (os_rename dt df (files(rgb \<mapsto> Image, dt \<mapsto> Image, mt \<mapsto> Image)))
      = (\<lambda>p. if p \<in> {rgb, df, mf} then Some Image else if p \<in> {dt, mt} then None else files p)"
    using ne by (auto simp: os_rename_def fun_eq_iff)
  moreover have "view_files views_dir i = [rgb, df, mf]"
    by (simp add: view_files_def rgb_def df_def mf_def)
  moreover have "host_temps views_dir i = [dt, mt]"
    by (simp add: host_temps_def dt_def mt_def)
  ultimately show ?thesis
    unfolding run by (simp cong: if_cong)
qed

lemma render_views_append:
  "render_views h views_dir d (xs @ ys) files =
     (case render_views h views_dir d xs files of
        (Some e, files1) \<Rightarrow> (Some e, files1)
      | (None, files1) \<Rightarrow> render_views h views_dir d ys files1)"
  by (induction xs arbitrary: files) (auto split: prod.splits option.splits)

lemma render_views_frame:
  assumes "render_still h = (\<lambda>job files. (None, write_frame_outputs job files))"
  shows "n \<le> 100 \<Longrightarrow>
         render_views h views_dir d [0..<n] files =
           (None, \<lambda>p. if \<exists>i<n. p \<in> set (view_files views_dir i) then Some Image
                      else if \<exists>i<n. p \<in> set (host_temps views_dir i) then None
                      else files p)"
proof (induction n)
  case 0
  then show ?case by simp
next
  case (Suc n)
  have cross: "p \<in> set (view_files views_dir i) \<Longrightarrow> p \<notin> set (host_temps views_dir j)"
    if "i < 100" "j < 100" for p i j
    using that by (auto simp: view_files_def host_temps_def view_path_eq)
  have n: "n < 100" using Suc.prems by simp
  have "render_views h views_dir d [0..<Suc n] files =
      render_view h views_dir d n
        (\<lambda>p. if \<exists>i<n. p \<in> set (view_files views_dir i) then Some Image
             else if \<exists>i<n. p \<in> set (host_temps views_dir i) then None
             else files p)"
    using Suc by (simp add: render_views_append split: prod.splits option.splits)
  also have "\<dots> =
      (None, \<lambda>p. if \<exists>i<Suc n. p \<in> set (view_files views_dir i) then Some Image
                 else if \<exists>i<Suc n. p \<in> set (host_temps views_dir i) then None
                 else files p)"
  proof -
    have "(if p \<in> set (view_files views_dir n) then Some Image
           else if p \<in> set (host_temps views_dir n) then None
           else (if \<exists>i<n. p \<in> set (view_files views_dir i) then Some Image
             else if \<exists>i<n. p \<in> set (host_temps views_dir i) then None
             else files p))
        = (if \<exists>i<Suc n. p \<in> set (view_files views_dir i) then Some Image
                 else if \<exists>i<Suc n. p \<in> set (host_temps views_dir i) then None
                 else files p)" for p
    proof (cases "\<exists>i<n. p \<in> set (view_files views_dir i)")
      case True
      then obtain i where "i < n" "p \<in> set (view_files views_dir i)" by blast
      then have "p \<notin> set (host_temps views_dir n)" using cross[of i n p] n by simp
      with True show ?thesis by (auto simp: less_Suc_eq)
    next
      case False
      then show ?thesis by (auto simp: less_Suc_eq)
    qed
    then show ?thesis by (simp add: render_view_frame[OF assms n])
  qed
  finally show ?case .
qed

lemma view_id_camera_params:
  "map view_id (camera_params h rs num_views d cam) = [0..<nat num_views]"
proof -
  have "view_id (camera_param h rs d cam i) = i" for i
    by (simp add: camera_param_def Let_def)
  then show ?thesis by (simp add: camera_params_def comp_def map_idI)
qed

lemma length_camera_params: "length (camera_params h rs num_views d cam) = nat num_views"
  by (simp add: camera_params_def)

lemma save_images_success:
  assumes "fst (save_images h a object_file files) = None"
  shows "\<exists>files1.
           render_views h
             (path_join (path_join (output_dir a) (split_first (CHR ''.'') (basename object_file)))
                ''views'')
             (camera_dist a) [0..<nat (min (num_images a) 16)] files = (None, files1)
           \<and> snd (save_images h a object_file files)
               = files1(path_join
                   (path_join (path_join (output_dir a)
                      (split_first (CHR ''.'') (basename object_file))) ''views'')
                   ''cameras.json''
                 \<mapsto> CamerasJson (camera_params h render (min (num_images a) 16)
                                  (camera_dist a) setup_camera))"
  using assms
  by (auto simp: save_images_def Let_def save_camera_parameters_mvd_def
      split: option.splits prod.splits)

lemma view_files_distinct:
  "n \<le> 100 \<Longrightarrow> distinct (concat (map (view_files views_dir) [0..<n]))"
proof (induction n)
  case 0
  then show ?case by simp
next
  case (Suc n)
  have n: "n < 100" using Suc.prems by simp
  have one: "distinct (view_files views_dir n)"
    using n by (simp add: view_files_def view_path_eq)
  have "p \<notin> set (view_files views_dir n)" if "i < n" "p \<in> set (view_files views_dir i)" for i p
    using that n by (auto simp: view_files_def view_path_eq)
  then have "set (concat (map (view_files views_dir) [0..<n])) \<inter> set (view_files views_dir n) = {}"
    by auto
  then show ?case using Suc one by simp
qed

lemma cameras_not_view:
  "i < 100 \<Longrightarrow> path_join views_dir ''cameras.json'' \<notin> set (view_files views_dir i)"
  "i < 100 \<Longrightarrow> path_join views_dir ''cameras.json'' \<notin> set (host_temps views_dir i)"
  by (simp_all add: view_files_def host_temps_def view_path_not_cameras[symmetric])

lemma save_images_frame:
  assumes host: "render_still h = (\<lambda>job files. (None, write_frame_outputs job files))"
    and stages: "run_stage h = (\<lambda>s. None)"
    and dirs: "os_makedirs h (output_dir a) files = None" "os_makedirs h views_dir files = None"
    and fmt: "endswith object_file ''.glb'' \<or> endswith object_file ''.fbx''"
    and vd: "views_dir = path_join (path_join (output_dir a)
                            (split_first (CHR ''.'') (basename object_file))) ''views''"
    and n: "n = nat (min (num_images a) 16)"
  shows "save_images h a object_file files =
           (None,
            (\<lambda>p. if \<exists>i<n. p \<in> set (view_files views_dir i) then Some Image
                  else if \<exists>i<n. p \<in> set (host_temps views_dir i) then None
                  else files p)
            (path_join views_dir ''cameras.json''
               \<mapsto> CamerasJson (camera_params h render (min (num_images a) 16)
                                (camera_dist a) setup_camera)))"
proof -
  have n100: "n \<le> 100" by (simp add: n)
  have pre: "first_exn
             [os_makedirs h (output_dir a) files,
              stage_exn h Reset, load_object h object_file, stage_exn h Normalize,
              stage_exn h Lighting, stage_exn h CameraRig,
              os_makedirs h views_dir files, stage_exn h (Compositor views_dir)]
           = None"
    using fmt dirs by (auto simp: stage_exn_def stages load_object_def)
  show ?thesis
    using pre render_views_frame[OF host n100, of views_dir "camera_dist a" files]
    by (simp add: save_images_def Let_def save_camera_parameters_mvd_def flip: vd n)
qed

lemma frame_host_render:
  "render_still frame_host = (\<lambda>job files. (None, write_frame_outputs job files))"
  "run_stage frame_host = (\<lambda>s. None)"
  by (simp_all add: frame_host_def)

lemma frame_host_makedirs: "os_makedirs frame_host p Map.empty = None"
  by (simp add: os_makedirs_def path_exists_def frame_host_def accepting_os_def)

lemma cube_views_dir:
  "path_join (path_join ''views'' (split_first (CHR ''.'') (basename ''cube.glb''))) ''views''
     = ''views/cube/views''"
  by (simp add: path_join_def basename_def split_first_def split_last_def startswith_def
      endswith_def)

lemma cube_paths:
  "path_join ''views/cube/views'' ''cameras.json'' = ''views/cube/views/cameras.json''"
  "path_join ''views/cube/views'' (fmt03d 15 @ ''_rgb.jpg'') = ''views/cube/views/015_rgb.jpg''"
  "path_join ''views/cube/views'' (fmt03d 15 @ ''_depth.png'') = ''views/cube/views/015_depth.png''"
  "path_join ''views/cube/views'' (fmt03d 15 @ ''_mask.jpg'') = ''views/cube/views/015_mask.jpg''"
  by code_simp+

subsection \<open>Views and metadata of a run\<close>

text \<open>
  Claim C1, as amended. Let \<open>n = min(num_images, 16)\<close>, and 0 when that is negative.
  After every successful run of \<open>save_images\<close> the file \<open>cameras.json\<close> exists and
  holds exactly \<open>n\<close> records, the \<open>i\<close>-th with \<open>view_id = i\<close>; \<open>n\<close> is 16 whenever
  \<open>num_images\<close> is at least 16. On a host that writes, for each render, the colour
  image at the given path and the depth and mask outputs numbered 0001, the run leaves
  for each \<open>i < n\<close> the three files of view \<open>i\<close>, all with different names, removes the
  numbered files, and changes no other path.
\<close>

theorem views_and_metadata:
  assumes "fst (save_images h a object_file files) = None"
  shows "(let n = nat (min (num_images a) 16);
              views_dir = path_join (path_join (output_dir a)
                            (split_first (CHR ''.'') (basename object_file))) ''views'';
              cameras = path_join views_dir ''cameras.json'';
              files' = snd (save_images h a object_file files)
          in files' cameras = Some (CamerasJson (read_cameras files' cameras))
             \<and> length (read_cameras files' cameras) = n
             \<and> map view_id (read_cameras files' cameras) = [0..<n]
             \<and> (16 \<le> num_images a \<longrightarrow> n = 16)
             \<and> (render_still h = (\<lambda>job files. (None, write_frame_outputs job files)) \<longrightarrow>
                  (\<forall>i<n. \<forall>p \<in> set (view_files views_dir i). files' p = Some Image)
                  \<and> (\<forall>i<n. \<forall>p \<in> set (host_temps views_dir i). files' p = None)
                  \<and> distinct (concat (map (view_files views_dir) [0..<n]) @ [cameras])
                  \<and> (\<forall>p. p \<noteq> cameras
                          \<and> (\<forall>i<n. p \<notin> set (view_files views_dir i)
                                    \<and> p \<notin> set (host_temps views_dir i))
                        \<longrightarrow> files' p = files p)))"
proof -
  define n where "n = nat (min (num_images a) 16)"
  define views_dir where "views_dir = path_join (path_join (output_dir a)
                            (split_first (CHR ''.'') (basename object_file))) ''views''"
  define cameras where "cameras = path_join views_dir ''cameras.json''"
  define files' where "files' = snd (save_images h a object_file files)"
  define recs where "recs = camera_params h render (min (num_images a) 16) (camera_dist a) setup_camera"
  have n100: "n \<le> 100" by (simp add: n_def)
  from save_images_success[OF assms] obtain files1 where
    loop: "render_views h views_dir (camera_dist a) [0..<n] files = (None, files1)"
    and fin: "files' = files1(cameras \<mapsto> CamerasJson recs)"
    unfolding n_def views_dir_def cameras_def files'_def recs_def by blast
  have rd: "read_cameras files' cameras = recs"
    by (simp add: read_cameras_def fin)
  have 1: "files' cameras = Some (CamerasJson (read_cameras files' cameras))"
    by (simp add: rd) (simp add: fin)
  have 2: "length (read_cameras files' cameras) = n"
    by (simp add: rd recs_def length_camera_params n_def)
  have 3: "map view_id (read_cameras files' cameras) = [0..<n]"
    by (simp add: rd recs_def view_id_camera_params n_def)
  have 4: "16 \<le> num_images a \<longrightarrow> n = 16" by (simp add: n_def)
  have 5: "(\<forall>i<n. \<forall>p \<in> set (view_files views_dir i). files' p = Some Image)
         \<and> (\<forall>i<n. \<forall>p \<in> set (host_temps views_dir i). files' p = None)
         \<and> distinct (concat (map (view_files views_dir) [0..<n]) @ [cameras])
         \<and> (\<forall>p. p \<noteq> cameras
                  \<and> (\<forall>i<n. p \<notin> set (view_files views_dir i) \<and> p \<notin> set (host_temps views_dir i))
                \<longrightarrow> files' p = files p)"
    if host: "render_still h = (\<lambda>job files. (None, write_frame_outputs job files))"
  proof -
    have f1: "files1 = (\<lambda>p. if \<exists>i<n. p \<in> set (view_files views_dir i) then Some Image
                      else if \<exists>i<n. p \<in> set (host_temps views_dir i) then None
                      else files p)"
      using render_views_frame[OF host n100, of views_dir "camera_dist a" files] loop by simp
    have cv: "cameras \<notin> set (view_files views_dir i)"
      and ct: "cameras \<notin> set (host_temps views_dir i)" if "i < n" for i
      using that n100 cameras_not_view[of i views_dir] by (simp_all add: cameras_def)
    have cross: "p \<notin> set (host_temps views_dir j)"
      if "i < n" "j < n" "p \<in> set (view_files views_dir i)" for p i j
      using that n100 by (auto simp: view_files_def host_temps_def view_path_eq)
    have a: "\<forall>i<n. \<forall>p \<in> set (view_files views_dir i). files' p = Some Image"
      using cv by (auto simp: fin f1)
    have b: "\<forall>i<n. \<forall>p \<in> set (host_temps views_dir i). files' p = None"
      using ct cross by (auto simp: fin f1)
    have c: "distinct (concat (map (view_files views_dir) [0..<n]) @ [cameras])"
      using view_files_distinct[OF n100, of views_dir] cv by auto
    have d: "\<forall>p. p \<noteq> cameras
                  \<and> (\<forall>i<n. p \<notin> set (view_files views_dir i) \<and> p \<notin> set (host_temps views_dir i))
                \<longrightarrow> files' p = files p"
      by (auto simp: fin f1)
    from a b c d show ?thesis by blast
  qed
  from 1 2 3 4 5 show ?thesis
    unfolding Let_def n_def[symmetric] views_dir_def[symmetric] cameras_def[symmetric]
      files'_def[symmetric]
    by blast
qed

theorem views_and_metadata_witness:
  "fst (save_images frame_host
          \<lparr> object_path = ''cube.glb'', output_dir = ''views'', num_images = 64,
            camera_dist = 1.5 \<rparr> ''cube.glb'' Map.empty) = None
   \<and> render_still frame_host = (\<lambda>job files. (None, write_frame_outputs job files))
   \<and> map view_id (read_cameras
        (snd (save_images frame_host
          \<lparr> object_path = ''cube.glb'', output_dir = ''views'', num_images = 64,
            camera_dist = 1.5 \<rparr> ''cube.glb'' Map.empty))
        ''views/cube/views/cameras.json'') = [0..<16]
   \<and> snd (save_images frame_host
          \<lparr> object_path = ''cube.glb'', output_dir = ''views'', num_images = 64,
            camera_dist = 1.5 \<rparr> ''cube.glb'' Map.empty)
        ''views/cube/views/015_rgb.jpg'' = Some Image
   \<and> snd (save_images frame_host
          \<lparr> object_path = ''cube.glb'', output_dir = ''views'', num_images = 64,
            camera_dist = 1.5 \<rparr> ''cube.glb'' Map.empty)
        ''views/cube/views/015_depth.png'' = Some Image
   \<and> snd (save_images frame_host
          \<lparr> object_path = ''cube.glb'', output_dir = ''views'', num_images = 64,
            camera_dist = 1.5 \<rparr> ''cube.glb'' Map.empty)
        ''views/cube/views/015_mask.jpg'' = Some Image"
proof -
  let ?a = "\<lparr> object_path = ''cube.glb'', output_dir = ''views'', num_images = 64,
            camera_dist = 1.5 \<rparr>"
  let ?files' = "snd (save_images frame_host ?a ''cube.glb'' Map.empty)"
  have glb: "endswith ''cube.glb'' ''.glb'' \<or> endswith ''cube.glb'' ''.fbx''"
    by (simp add: endswith_def)
  have vd: "''views/cube/views'' = path_join (path_join (output_dir ?a)
                            (split_first (CHR ''.'') (basename ''cube.glb''))) ''views''"
    by (simp add: cube_views_dir)
  have n: "(16::nat) = nat (min (num_images ?a) 16)" by simp
  have ok: "fst (save_images frame_host ?a ''cube.glb'' Map.empty) = None"
    by (simp only: save_images_frame[OF frame_host_render frame_host_makedirs frame_host_makedirs glb vd n] fst_conv)
  have vf: "view_files ''views/cube/views'' 15
      = [''views/cube/views/015_rgb.jpg'', ''views/cube/views/015_depth.png'',
         ''views/cube/views/015_mask.jpg'']"
    by (simp only: view_files_def cube_paths)
  from views_and_metadata[OF ok]
  have ids: "map view_id (read_cameras ?files' ''views/cube/views/cameras.json'') = [0..<16]"
    and all: "\<forall>i<16. \<forall>p \<in> set (view_files ''views/cube/views'' i). ?files' p = Some Image"
    unfolding Let_def vd[symmetric] n[symmetric] cube_paths(1)
    using frame_host_render(1) by blast+
  from all have "\<forall>p \<in> set (view_files ''views/cube/views'' 15). ?files' p = Some Image"
    by (rule allE[of _ 15]) simp
  then have "?files' ''views/cube/views/015_rgb.jpg'' = Some Image"
    and "?files' ''views/cube/views/015_depth.png'' = Some Image"
    and "?files' ''views/cube/views/015_mask.jpg'' = Some Image"
    unfolding vf by simp_all
  with ok ids frame_host_render(1) show ?thesis by (intro conjI)
qed

text \<open>
  Claim C1 as stated fails: with \<open>--num_images 4\<close> the run succeeds, writes four
  records with view ids 0 to 3, and leaves no file for view 15.
\<close>

theorem four_views_counterexample:
  "fst (save_images frame_host
          \<lparr> object_path = ''cube.glb'', output_dir = ''views'', num_images = 4,
            camera_dist = 1.5 \<rparr> ''cube.glb'' Map.empty) = None
   \<and> map view_id (read_cameras
        (snd (save_images frame_host
          \<lparr> object_path = ''cube.glb'', output_dir = ''views'', num_images = 4,
            camera_dist = 1.5 \<rparr> ''cube.glb'' Map.empty))
        ''views/cube/views/cameras.json'') = [0, 1, 2, 3]
   \<and> length (read_cameras
        (snd (save_images frame_host
          \<lparr> object_path = ''cube.glb'', output_dir = ''views'', num_images = 4,
            camera_dist = 1.5 \<rparr> ''cube.glb'' Map.empty))
        ''views/cube/views/cameras.json'') \<noteq> 16
   \<and> snd (save_images frame_host
          \<lparr> object_path = ''cube.glb'', output_dir = ''views'', num_images = 4,
            camera_dist = 1.5 \<rparr> ''cube.glb'' Map.empty)
        ''views/cube/views/015_rgb.jpg'' = None"
proof -
  let ?a = "\<lparr> object_path = ''cube.glb'', output_dir = ''views'', num_images = 4,
            camera_dist = 1.5 \<rparr>"
  have glb: "endswith ''cube.glb'' ''.glb'' \<or> endswith ''cube.glb'' ''.fbx''"
    by (simp add: endswith_def)
  have vd: "''views/cube/views'' = path_join (path_join (output_dir ?a)
                            (split_first (CHR ''.'') (basename ''cube.glb''))) ''views''"
    by (simp add: cube_views_dir)
  have n: "(4::nat) = nat (min (num_images ?a) 16)" by simp
  note run = save_images_frame[OF frame_host_render frame_host_makedirs frame_host_makedirs glb vd n]
  have ids: "map view_id (camera_params frame_host render 4 1.5 setup_camera) = [0, 1, 2, 3]"
    by (simp add: view_id_camera_params upt_rec numeral_eq_Suc)
  have absent: "\<not> (\<exists>i<4. ''views/cube/views/015_rgb.jpg'' \<in> set (view_files ''views/cube/views'' i))"
    by (auto simp: view_files_def view_path_eq simp flip: cube_paths(2))
  have r: "read_cameras (snd (save_images frame_host ?a ''cube.glb'' Map.empty))
             ''views/cube/views/cameras.json''
           = camera_params frame_host render 4 1.5 setup_camera"
    by (simp only: run) (simp add: read_cameras_def cube_paths(1))
  have 1: "fst (save_images frame_host ?a ''cube.glb'' Map.empty) = None"
    by (simp only: run fst_conv)
  have 4: "snd (save_images frame_host ?a ''cube.glb'' Map.empty)
        ''views/cube/views/015_rgb.jpg'' = None"
    using absent by (simp only: run) (simp add: cube_paths(1))
  have 2: "map view_id (read_cameras (snd (save_images frame_host ?a ''cube.glb'' Map.empty))
             ''views/cube/views/cameras.json'') = [0, 1, 2, 3]"
    by (simp only: r ids)
  have 3: "length (read_cameras (snd (save_images frame_host ?a ''cube.glb'' Map.empty))
             ''views/cube/views/cameras.json'') \<noteq> 16"
    unfolding r by (simp add: length_camera_params)
  from 1 2 3 4 show ?thesis by (intro conjI)
qed

end
